theory Spec2Isabelle
  imports Main "HOL-Library.Word"
begin

section \<open>Constraint automaton builder of updown/modules/constraint.py\<close>

text \<open>
  The module builds, per image, a transition tensor \<open>[1][from][to][token]\<close> of a
  finite-state acceptor over at most three detected phrases. The embedding follows the
  source: the class \<open>_CBSMatrix\<close> with its three methods, \<open>get_word_set\<close>, two parts of
  the body of \<open>CBSConstraint.get_state_matrix\<close>, and \<open>FreeConstraint.get_state_matrix\<close>.
  The two parts are the candidate loop of lines 169 to 175 (\<open>select_candidates\<close>, on the
  ranked list \<open>anns\<close> of line 167) and the construction of lines 177 to 241
  (\<open>build_state_matrix\<close>, on the candidate list). The lines before, which read the
  detections, filter them through a helper module and sort them by score, are not
  modelled.
  Exceptions are values of the type \<open>error\<close>; a function that may raise returns
  \<open>error + 'a\<close>.
\<close>

subsection \<open>Errors\<close>

datatype error = AssertionError | IndexError

definition bind_err :: "error + 'a \<Rightarrow> ('a \<Rightarrow> error + 'b) \<Rightarrow> error + 'b" where
  "bind_err r f = (case r of Inl e \<Rightarrow> Inl e | Inr x \<Rightarrow> f x)"

subsection \<open>The array\<close>

text \<open>
  \<open>np.zeros((1, state_size, state_size, vocab_size), dtype=np.uint8)\<close>: the leading
  axis has length 1 and is only ever indexed at 0, so it is left out. The shape is kept
  beside the cells, and every write checks it, as numpy raises IndexError out of range.
  State and token indices are never negative in this module, so they are naturals.
\<close>

record ndarray =
  n_state :: nat
  n_vocab :: nat
  cell :: "nat \<Rightarrow> nat \<Rightarrow> nat \<Rightarrow> 8 word"

definition np_zeros :: "nat \<Rightarrow> nat \<Rightarrow> ndarray" where
  "np_zeros state_size v = \<lparr>n_state = state_size, n_vocab = v, cell = (\<lambda>_ _ _. 0)\<rparr>"

text \<open>\<open>a[0, f, t, w] = v\<close>\<close>

definition set_item :: "ndarray \<Rightarrow> nat \<Rightarrow> nat \<Rightarrow> nat \<Rightarrow> 8 word \<Rightarrow> error + ndarray" where
  "set_item a f t w v =
     (if f < n_state a \<and> t < n_state a \<and> w < n_vocab a
      then Inr (a\<lparr>cell := (\<lambda>x y z. if x = f \<and> y = t \<and> z = w then v else cell a x y z)\<rparr>)
      else Inl IndexError)"

text \<open>\<open>a[0, s, s, :] = v\<close>\<close>

definition set_diag_row :: "ndarray \<Rightarrow> nat \<Rightarrow> 8 word \<Rightarrow> error + ndarray" where
  "set_diag_row a s v =
     (if s < n_state a
      then Inr (a\<lparr>cell := (\<lambda>x y z. if x = s \<and> y = s \<and> z < n_vocab a then v else cell a x y z)\<rparr>)
      else Inl IndexError)"

subsection \<open>The class \<open>_CBSMatrix\<close>\<close>

record CBSMatrix =
  matrix :: "ndarray option"
  vocab_size :: nat

definition new_CBSMatrix :: "nat \<Rightarrow> CBSMatrix" where
  "new_CBSMatrix v = \<lparr>matrix = None, vocab_size = v\<rparr>"

definition init_matrix :: "CBSMatrix \<Rightarrow> nat \<Rightarrow> CBSMatrix" where
  "init_matrix M state_size = M\<lparr>matrix := Some (np_zeros state_size (vocab_size M))\<rparr>"

text \<open>The loop \<open>for w_index in w_group\<close> of \<open>add_connect\<close>, on the array.\<close>

fun add_connect_loop :: "nat \<Rightarrow> nat \<Rightarrow> nat list \<Rightarrow> ndarray \<Rightarrow> error + ndarray" where
  "add_connect_loop from_state to_state [] a = Inr a"
| "add_connect_loop from_state to_state (w_index # ws) a =
     bind_err (set_item a from_state to_state w_index 1) (\<lambda>a.
     bind_err (set_item a from_state from_state w_index 0) (\<lambda>a.
     add_connect_loop from_state to_state ws a))"

definition add_connect :: "nat \<Rightarrow> nat \<Rightarrow> nat list \<Rightarrow> CBSMatrix \<Rightarrow> error + CBSMatrix" where
  "add_connect from_state to_state w_group M =
     (case matrix M of
        None \<Rightarrow> Inl AssertionError
      | Some a \<Rightarrow> bind_err (add_connect_loop from_state to_state w_group a)
                    (\<lambda>a. Inr (M\<lparr>matrix := Some a\<rparr>)))"

definition init_row :: "nat \<Rightarrow> CBSMatrix \<Rightarrow> error + CBSMatrix" where
  "init_row state_index M =
     (case matrix M of
        None \<Rightarrow> Inl AssertionError
      | Some a \<Rightarrow> bind_err (set_diag_row a state_index 1) (\<lambda>a. Inr (M\<lparr>matrix := Some a\<rparr>)))"

subsection \<open>Strings\<close>



definition isspace :: "char \<Rightarrow> bool" where
  "isspace c = (c \<in> set [CHR 0x09, CHR ''\<newline>'', CHR 0x0B, CHR 0x0C, CHR 0x0D,
                           CHR 0x1C, CHR 0x1D, CHR 0x1E, CHR 0x1F, CHR '' '',
                           CHR 0x85, CHR 0xA0])"

fun split_from :: "string \<Rightarrow> string \<Rightarrow> string list" where
  "split_from cur [] = (if cur = [] then [] else [cur])"
| "split_from cur (c # cs) =
     (if isspace c then (if cur = [] then split_from [] cs else cur # split_from [] cs)
      else split_from (cur @ [c]) cs)"

definition str_split :: "string \<Rightarrow> string list" where
  "str_split s = split_from [] s"


subsection \<open>Python list indexing and slicing\<close>

text \<open>\<open>xs[i]\<close>: an index below zero counts back from the end of the list.\<close>

definition py_index :: "'a list \<Rightarrow> int \<Rightarrow> error + 'a" where
  "py_index xs i =
     (if 0 \<le> i \<and> i < int (length xs) then Inr (xs ! nat i)
      else if i < 0 \<and> - int (length xs) \<le> i then Inr (xs ! nat (int (length xs) + i))
      else Inl IndexError)"


subsection \<open>The class \<open>CBSConstraint\<close>\<close>

text \<open>
  The fields the constructor sets. The vocabulary is an external object: its
  \<open>get_token_index\<close> is a field here, and \<open>pad_index\<close> is what the constructor read
  from it for the token \<open>@@UNKNOWN@@\<close>.
\<close>

record CBSConstraint =
  topk :: int
  get_token_index :: "string \<Rightarrow> nat"
  pad_index :: nat
  M :: CBSMatrix
  oi_class_list :: "string list"
  oi_word_form :: "string \<rightharpoonup> string list"

definition get_word_set :: "CBSConstraint \<Rightarrow> string \<Rightarrow> nat list" where
  "get_word_set self target =
     (let group_w = (case oi_word_form self target of Some ws \<Rightarrow> ws | None \<Rightarrow> [target]);
          group_w = map (get_token_index self) group_w
      in filter (\<lambda>v. \<not> (v = pad_index self)) group_w)"



definition level_mapping :: "(nat \<rightharpoonup> nat) list" where
  "level_mapping = [[3 \<mapsto> 5, 2 \<mapsto> 6], [1 \<mapsto> 6, 3 \<mapsto> 4], [1 \<mapsto> 5, 2 \<mapsto> 4]]"

text \<open>\<open>level_mapping[i]\<close> for the loop index \<open>i\<close> of \<open>enumerate\<close>.\<close>

definition level_mapping_at :: "nat \<Rightarrow> error + (nat \<rightharpoonup> nat)" where
  "level_mapping_at i = py_index level_mapping (int i)"

text \<open>
  The wiring of the candidates. The source calls \<open>self.M.add_connect\<close> on whatever
  object \<open>self.M\<close> is; the embedding takes that method as the parameter \<open>conn\<close>, working on
  a state \<open>'m\<close>. With \<open>add_connect\<close> it is the program; with a method that records its
  arguments it gives the sequence of calls the program makes.

  The three loops \<open>for j in range(1, 4): if j in mapping: ...\<close>, one per phrase length.
\<close>

fun wire_level1 ::
  "(nat \<Rightarrow> nat \<Rightarrow> nat list \<Rightarrow> 'm \<Rightarrow> error + 'm) \<Rightarrow> (nat \<rightharpoonup> nat) \<Rightarrow> nat list \<Rightarrow>
   nat list \<Rightarrow> 'm \<times> nat \<Rightarrow> error + 'm \<times> nat" where
  "wire_level1 conn mapping group_w [] (m, start_additional_index) =
     Inr (m, start_additional_index)"
| "wire_level1 conn mapping group_w (j # js) (m, start_additional_index) =
     (case mapping j of
        None \<Rightarrow> wire_level1 conn mapping group_w js (m, start_additional_index)
      | Some to_state \<Rightarrow>
          bind_err (conn j to_state group_w m) (\<lambda>m.
          wire_level1 conn mapping group_w js (m, start_additional_index)))"

fun wire_level2 ::
  "(nat \<Rightarrow> nat \<Rightarrow> nat list \<Rightarrow> 'm \<Rightarrow> error + 'm) \<Rightarrow> (nat \<rightharpoonup> nat) \<Rightarrow> nat list \<Rightarrow> nat list \<Rightarrow>
   nat list \<Rightarrow> 'm \<times> nat \<Rightarrow> error + 'm \<times> nat" where
  "wire_level2 conn mapping group_s1 group_s2 [] (m, start_additional_index) =
     Inr (m, start_additional_index)"
| "wire_level2 conn mapping group_s1 group_s2 (j # js) (m, start_additional_index) =
     (case mapping j of
        None \<Rightarrow> wire_level2 conn mapping group_s1 group_s2 js (m, start_additional_index)
      | Some to_state \<Rightarrow>
          bind_err (conn j start_additional_index group_s1 m) (\<lambda>m.
          bind_err (conn start_additional_index to_state group_s2 m) (\<lambda>m.
          wire_level2 conn mapping group_s1 group_s2 js (m, start_additional_index + 1))))"

fun wire_level3 ::
  "(nat \<Rightarrow> nat \<Rightarrow> nat list \<Rightarrow> 'm \<Rightarrow> error + 'm) \<Rightarrow> (nat \<rightharpoonup> nat) \<Rightarrow> nat list \<Rightarrow> nat list \<Rightarrow>
   nat list \<Rightarrow> nat list \<Rightarrow> 'm \<times> nat \<Rightarrow> error + 'm \<times> nat" where
  "wire_level3 conn mapping group_s1 group_s2 group_s3 [] (m, start_additional_index) =
     Inr (m, start_additional_index)"
| "wire_level3 conn mapping group_s1 group_s2 group_s3 (j # js) (m, start_additional_index) =
     (case mapping j of
        None \<Rightarrow> wire_level3 conn mapping group_s1 group_s2 group_s3 js (m, start_additional_index)
      | Some to_state \<Rightarrow>
          bind_err (conn j start_additional_index group_s1 m) (\<lambda>m.
          bind_err (conn start_additional_index (start_additional_index + 1) group_s2 m) (\<lambda>m.
          bind_err (conn (start_additional_index + 1) to_state group_s3 m) (\<lambda>m.
          wire_level3 conn mapping group_s1 group_s2 group_s3 js
            (m, start_additional_index + 2)))))"

text \<open>
  The body of \<open>for i, target in enumerate(candidates)\<close>. A phrase of no word or of more
  than three words matches none of the three branches and is passed over.
\<close>

definition wire_candidate ::
  "(nat \<Rightarrow> nat \<Rightarrow> nat list \<Rightarrow> 'm \<Rightarrow> error + 'm) \<Rightarrow> CBSConstraint \<Rightarrow> nat \<Rightarrow> string \<Rightarrow>
   'm \<times> nat \<Rightarrow> error + 'm \<times> nat" where
  "wire_candidate conn self i target st =
     (case st of (m, start_additional_index) \<Rightarrow>
      (case str_split target of
         [w] \<Rightarrow>
           (let group_w = get_word_set self target in
            bind_err (conn 0 (i + 1) group_w m) (\<lambda>m.
            bind_err (conn (i + 4) 7 group_w m) (\<lambda>m.
            bind_err (level_mapping_at i) (\<lambda>mapping.
            wire_level1 conn mapping group_w [1..<4] (m, start_additional_index)))))
       | [s1, s2] \<Rightarrow>
           (let group_s1 = get_word_set self s1;
                group_s2 = get_word_set self s2 in
            bind_err (conn 0 start_additional_index group_s1 m) (\<lambda>m.
            bind_err (conn start_additional_index (i + 1) group_s2 m) (\<lambda>m.
            let start_additional_index = start_additional_index + 1 in
            bind_err (conn (i + 4) start_additional_index group_s1 m) (\<lambda>m.
            bind_err (conn start_additional_index 7 group_s2 m) (\<lambda>m.
            let start_additional_index = start_additional_index + 1 in
            bind_err (level_mapping_at i) (\<lambda>mapping.
            wire_level2 conn mapping group_s1 group_s2 [1..<4]
              (m, start_additional_index)))))))
       | [s1, s2, s3] \<Rightarrow>
           (let group_s1 = get_word_set self s1;
                group_s2 = get_word_set self s2;
                group_s3 = get_word_set self s3 in
            bind_err (conn 0 start_additional_index group_s1 m) (\<lambda>m.
            bind_err (conn start_additional_index (start_additional_index + 1) group_s2 m) (\<lambda>m.
            bind_err (conn (start_additional_index + 1) (i + 1) group_s3 m) (\<lambda>m.
            let start_additional_index = start_additional_index + 2 in
            bind_err (conn (i + 4) start_additional_index group_s1 m) (\<lambda>m.
            bind_err (conn start_additional_index (start_additional_index + 1) group_s2 m) (\<lambda>m.
            bind_err (conn (start_additional_index + 1) 7 group_s3 m) (\<lambda>m.
            let start_additional_index = start_additional_index + 2 in
            bind_err (level_mapping_at i) (\<lambda>mapping.
            wire_level3 conn mapping group_s1 group_s2 group_s3 [1..<4]
              (m, start_additional_index)))))))))
       | _ \<Rightarrow> Inr (m, start_additional_index)))"

fun wire_candidates ::
  "(nat \<Rightarrow> nat \<Rightarrow> nat list \<Rightarrow> 'm \<Rightarrow> error + 'm) \<Rightarrow> CBSConstraint \<Rightarrow> nat \<Rightarrow> string list \<Rightarrow>
   'm \<times> nat \<Rightarrow> error + 'm \<times> nat" where
  "wire_candidates conn self i [] st = Inr st"
| "wire_candidates conn self i (target # rest) st =
     bind_err (wire_candidate conn self i target st) (wire_candidates conn self (i + 1) rest)"

text \<open>\<open>for i in range(26): self.M.init_row(i)\<close>\<close>

fun init_rows :: "nat list \<Rightarrow> CBSMatrix \<Rightarrow> error + CBSMatrix" where
  "init_rows [] m = Inr m"
| "init_rows (i # is) m = bind_err (init_row i m) (init_rows is)"

text \<open>Lines 177 to 241, on the candidate list.\<close>

definition build_state_matrix ::
  "CBSConstraint \<Rightarrow> string list \<Rightarrow> error + (ndarray option \<times> nat \<times> nat)" where
  "build_state_matrix self candidates =
     (let m = init_matrix (M self) 26 in
      bind_err (init_rows [0..<26] m) (\<lambda>m.
      bind_err (wire_candidates add_connect self 0 candidates (m, 8))
        (\<lambda>(m, start_additional_index).
      Inr (matrix m, start_additional_index, length candidates))))"

subsection \<open>The class \<open>FreeConstraint\<close>\<close>

text \<open>
  The object holds only \<open>self.M\<close>, which the function takes; \<open>image_id\<close> is not read.
\<close>

definition FreeConstraint_get_state_matrix ::
  "CBSMatrix \<Rightarrow> error + (ndarray option \<times> nat \<times> nat)" where
  "FreeConstraint_get_state_matrix m0 =
     (let m = init_matrix m0 1 in
      bind_err (init_row 0 m) (\<lambda>m. Inr (matrix m, 1, 0)))"

subsection \<open>The calls a build makes, and what the tensor accepts\<close>

text \<open>
  A call of \<open>add_connect\<close> is its three arguments. Run with \<open>log_connect\<close> in place of
  \<open>add_connect\<close>, the wiring returns the calls it makes, in order, and the final value of
  \<open>start_additional_index\<close>.
\<close>

type_synonym call = "nat \<times> nat \<times> nat list"

definition log_connect :: "nat \<Rightarrow> nat \<Rightarrow> nat list \<Rightarrow> call list \<Rightarrow> error + call list" where
  "log_connect from_state to_state w_group calls =
     Inr (calls @ [(from_state, to_state, w_group)])"

definition connect_calls :: "CBSConstraint \<Rightarrow> string list \<Rightarrow> error + call list \<times> nat" where
  "connect_calls self candidates = wire_candidates log_connect self 0 candidates ([], 8)"

fun apply_calls ::
  "(nat \<Rightarrow> nat \<Rightarrow> nat list \<Rightarrow> 'm \<Rightarrow> error + 'm) \<Rightarrow> call list \<Rightarrow> 'm \<Rightarrow> error + 'm" where
  "apply_calls conn [] m = Inr m"
| "apply_calls conn ((f, t, g) # cs) m = bind_err (conn f t g m) (apply_calls conn cs)"

text \<open>Some call routed token \<open>w\<close> from state \<open>f\<close> to state \<open>t\<close>; from \<open>f\<close> to anywhere.\<close>

definition routed :: "call list \<Rightarrow> nat \<Rightarrow> nat \<Rightarrow> nat \<Rightarrow> bool" where
  "routed calls f t w = list_ex (\<lambda>(f', t', g). f' = f \<and> t' = t \<and> w \<in> set g) calls"

definition routed_out :: "call list \<Rightarrow> nat \<Rightarrow> nat \<Rightarrow> bool" where
  "routed_out calls f w = list_ex (\<lambda>(f', t', g). f' = f \<and> w \<in> set g) calls"

text \<open>
  The auxiliary states are those from index 8 on. The ones calls leave, and the ones
  calls enter, each in call order.
\<close>

definition aux_sources :: "call list \<Rightarrow> nat list" where
  "aux_sources calls = filter (\<lambda>s. 8 \<le> s) (map fst calls)"

definition aux_targets :: "call list \<Rightarrow> nat list" where
  "aux_targets calls = filter (\<lambda>s. 8 \<le> s) (map (\<lambda>c. fst (snd c)) calls)"

text \<open>
  A chain of calls from state \<open>f\<close> to state \<open>t\<close>, one call per word group, through the
  auxiliary states \<open>a\<close>, \<open>a + 1\<close>, ... between them.
\<close>

fun chain :: "nat \<Rightarrow> nat \<Rightarrow> nat list list \<Rightarrow> nat \<Rightarrow> call list" where
  "chain f t [] a = []"
| "chain f t [g] a = [(f, t, g)]"
| "chain f t (g # gs) a = (f, a, g) # chain a t gs (a + 1)"

text \<open>
  The word groups of a phrase as the loop body computes them: a one-word phrase is
  looked up whole (\<open>get_word_set(target)\<close>), the others word by word.
\<close>

definition phrase_groups :: "CBSConstraint \<Rightarrow> string \<Rightarrow> nat list list" where
  "phrase_groups self target =
     (case str_split target of
        [w] \<Rightarrow> [get_word_set self target]
      | ws \<Rightarrow> map (get_word_set self) ws)"

text \<open>
  How a decoder reads the tensor: from state \<open>s\<close>, token \<open>w\<close> leads to every state
  \<open>s'\<close> with \<open>[s][s'][w]\<close> set. \<open>reach a ws s\<close> lists the states the token sequence
  \<open>ws\<close> can end in from \<open>s\<close>.
\<close>

definition succs :: "ndarray \<Rightarrow> nat \<Rightarrow> nat \<Rightarrow> nat list" where
  "succs a s w = filter (\<lambda>s'. cell a s s' w \<noteq> 0) [0..<n_state a]"

fun reach :: "ndarray \<Rightarrow> nat list \<Rightarrow> nat \<Rightarrow> nat list" where
  "reach a [] s = [s]"
| "reach a (w # ws) s = concat (map (reach a ws) (succs a s w))"

subsection \<open>A small vocabulary and detector for the examples\<close>

definition example_vocabulary :: "string \<Rightarrow> nat" where
  "example_vocabulary w =
     (case map_of
        [(''@@PADDING@@'', 0), (''@@UNKNOWN@@'', 1), (''dog'', 2), (''frisbee'', 3),
         (''cat'', 4), (''wood'', 5), (''burning'', 6), (''stove'', 7), (''chest'', 8),
         (''of'', 9), (''drawers'', 10), (''salt'', 11), (''and'', 12), (''pepper'', 13)] w of
        Some k \<Rightarrow> k | None \<Rightarrow> 1)"

definition example_self :: CBSConstraint where
  "example_self =
     \<lparr>topk = 3, get_token_index = example_vocabulary, pad_index = 1, M = new_CBSMatrix 14,
      oi_class_list = [''__background__'', ''Dog'', ''Frisbee'', ''Cat'', ''Wood-burning stove'',
                       ''Chest of drawers'', ''Salt and pepper shakers''],
      oi_word_form = Map.empty\<rparr>"


subsection \<open>Notions used in the proofs\<close>

text \<open>
  A run that records its calls follows a run on a state \<open>'m\<close> when it ends with the same
  counter and its calls, applied in order to the initial state \<open>m0\<close>, give the final state.
\<close>

definition follows ::
  "(nat \<Rightarrow> nat \<Rightarrow> nat list \<Rightarrow> 'm \<Rightarrow> error + 'm) \<Rightarrow> 'm \<Rightarrow> error + call list \<times> nat \<Rightarrow> 'm \<Rightarrow> nat \<Rightarrow> bool" where
  "follows conn m0 r m' n = (\<exists>cs'. r = Inr (cs', n) \<and> apply_calls conn cs' m0 = Inr m')"

text \<open>
  The calls \<open>new\<close> use the auxiliary states from \<open>s\<close> up to \<open>n\<close>, each left by exactly
  one call and entered by exactly one call, and no call goes from a state to itself.
\<close>

definition fresh_calls :: "call list \<Rightarrow> nat \<Rightarrow> nat \<Rightarrow> bool" where
  "fresh_calls new s n \<longleftrightarrow>
     s \<le> n \<and> aux_sources new = [s..<n] \<and> aux_targets new = [s..<n] \<and>
     (\<forall>c \<in> set new. fst c \<noteq> fst (snd c) \<and> fst c < n \<and> fst (snd c) < n)"

text \<open>Readings of a result: one entry of the tensor, the two counts, the exception.\<close>

definition entry :: "error + (ndarray option \<times> nat \<times> nat) \<Rightarrow> nat \<Rightarrow> nat \<Rightarrow> nat \<Rightarrow> 8 word option" where
  "entry r f t w = (case r of Inr (Some a, _, _) \<Rightarrow> Some (cell a f t w) | _ \<Rightarrow> None)"

definition counts :: "error + (ndarray option \<times> nat \<times> nat) \<Rightarrow> (nat \<times> nat) option" where
  "counts r = (case r of Inr (_, n, k) \<Rightarrow> Some (n, k) | Inl _ \<Rightarrow> None)"

definition failure :: "error + 'a \<Rightarrow> error option" where
  "failure r = (case r of Inl e \<Rightarrow> Some e | Inr _ \<Rightarrow> None)"

text \<open>
  The tensor \<open>a\<close> is what the calls make of the 26 initialised rows: a diagonal entry is
  cleared exactly when some call routed its token out of the state, an entry off the
  diagonal is set exactly when some call routed its token along it, and every call that
  writes stays inside the array.
\<close>

definition built ::
  "CBSConstraint \<Rightarrow> call list \<Rightarrow> ndarray \<Rightarrow> bool" where
  "built self calls a \<longleftrightarrow>
     n_state a = 26 \<and> n_vocab a = vocab_size (M self) \<and>
     (\<forall>x z. cell a x x z =
        (if routed_out calls x z then 0 else if x < 26 \<and> z < vocab_size (M self) then 1 else 0)) \<and>
     (\<forall>x y z. x \<noteq> y \<longrightarrow> cell a x y z = (if routed calls x y z then 1 else 0)) \<and>
     (\<forall>c \<in> set calls. \<forall>w \<in> set (snd (snd c)).
        fst c < 26 \<and> fst (snd c) < 26 \<and> w < vocab_size (M self))"

text \<open>One entry of the tensor after a call of \<open>add_connect\<close>.\<close>

definition entry_after :: "error + CBSMatrix \<Rightarrow> nat \<Rightarrow> nat \<Rightarrow> nat \<Rightarrow> 8 word option" where
  "entry_after r f t w =
     (case r of Inr m \<Rightarrow> (case matrix m of Some a \<Rightarrow> Some (cell a f t w) | None \<Rightarrow> None)
      | Inl _ \<Rightarrow> None)"

text \<open>
  The number of candidates a state of the fixed lattice stands for: none for state 0, one
  for the states 1 to 3, two for the states 4 to 6, all three for state 7.
\<close>

definition tier :: "nat \<Rightarrow> nat" where
  "tier s = (if s = 0 then 0 else if s \<le> 3 then 1 else if s \<le> 6 then 2 else 3)"

text \<open>The token sequence can end in state \<open>s\<close>, from state 0, in the tensor of a result.\<close>

definition ends_in :: "error + (ndarray option \<times> nat \<times> nat) \<Rightarrow> nat list \<Rightarrow> nat \<Rightarrow> bool" where
  "ends_in r toks s =
     (case r of Inr (Some a, _, _) \<Rightarrow> s \<in> set (reach a toks 0) | _ \<Rightarrow> False)"

text \<open>The result is a value with the property \<open>P\<close>, or the exception IndexError.\<close>

definition index_error_or :: "('a \<Rightarrow> bool) \<Rightarrow> error + 'a \<Rightarrow> bool" where
  "index_error_or P r = (case r of Inl e \<Rightarrow> e = IndexError | Inr x \<Rightarrow> P x)"

section \<open>Properties\<close>

subsection \<open>The error monad and the array\<close>

lemma bind_err_Inr [simp]: "bind_err (Inr x) f = f x"
  by (simp add: bind_err_def)

lemma bind_err_Inl [simp]: "bind_err (Inl e) f = Inl e"
  by (simp add: bind_err_def)

lemma bind_err_eq_Inr: "bind_err r f = Inr y \<longleftrightarrow> (\<exists>x. r = Inr x \<and> f x = Inr y)"
  by (cases r) simp_all

lemma set_item_eq_Inr:
  "set_item a f t w v = Inr a' \<longleftrightarrow>
     f < n_state a \<and> t < n_state a \<and> w < n_vocab a \<and>
     a' = a\<lparr>cell := (\<lambda>x y z. if x = f \<and> y = t \<and> z = w then v else cell a x y z)\<rparr>"
  by (auto simp: set_item_def)

lemma add_connect_loop_shape:
  "add_connect_loop f t g a = Inr a' \<Longrightarrow> n_state a' = n_state a \<and> n_vocab a' = n_vocab a"
  by (induction g arbitrary: a) (auto simp: bind_err_eq_Inr set_item_eq_Inr)

lemma add_connect_loop_cell:
  "add_connect_loop f t g a = Inr a' \<Longrightarrow>
   cell a' x y z = (if z \<in> set g \<and> x = f \<and> y = f then 0
                    else if z \<in> set g \<and> x = f \<and> y = t then 1 else cell a x y z)"
  by (induction g arbitrary: a) (auto simp: bind_err_eq_Inr set_item_eq_Inr)


lemma add_connect_loop_range:
  "add_connect_loop f t g a = Inr a' \<Longrightarrow> w \<in> set g \<Longrightarrow>
   f < n_state a \<and> t < n_state a \<and> w < n_vocab a"
proof (induction g arbitrary: a)
  case Nil
  then show ?case by simp
next
  case (Cons v vs)
  from Cons.prems(1) obtain a1 a2 where
    s1: "set_item a f t v 1 = Inr a1" and s2: "set_item a1 f f v 0 = Inr a2"
    and r: "add_connect_loop f t vs a2 = Inr a'"
    by (auto simp: bind_err_eq_Inr)
  have sh: "n_state a2 = n_state a" "n_vocab a2 = n_vocab a"
    using s1 s2 by (auto simp: set_item_eq_Inr)
  show ?case
  proof (cases "w = v")
    case True
    then show ?thesis using s1 by (simp add: set_item_eq_Inr)
  next
    case False
    then have "w \<in> set vs" using Cons.prems(2) by simp
    from Cons.IH [OF r this] sh show ?thesis by simp
  qed
qed

lemma add_connect_eq_Inr:
  "add_connect f t g m = Inr m' \<longleftrightarrow>
     (\<exists>a a'. matrix m = Some a \<and> add_connect_loop f t g a = Inr a' \<and> m' = m\<lparr>matrix := Some a'\<rparr>)"
  by (auto simp: add_connect_def bind_err_eq_Inr split: option.splits)

lemma routed_Cons:
  "routed ((f, t, g) # cs) x y z = ((x = f \<and> y = t \<and> z \<in> set g) \<or> routed cs x y z)"
  by (auto simp: routed_def)

lemma routed_out_Cons:
  "routed_out ((f, t, g) # cs) x z = ((x = f \<and> z \<in> set g) \<or> routed_out cs x z)"
  by (auto simp: routed_out_def)


lemma add_connect_matrix:
  "add_connect f t g m = Inr m' \<Longrightarrow> matrix m = Some a \<Longrightarrow>
   \<exists>a'. matrix m' = Some a' \<and> add_connect_loop f t g a = Inr a' \<and> vocab_size m' = vocab_size m"
  by (auto simp: add_connect_eq_Inr)

lemma apply_calls_matrix:
  "apply_calls add_connect calls m = Inr m' \<Longrightarrow> matrix m = Some a \<Longrightarrow>
   \<exists>a'. matrix m' = Some a' \<and> n_state a' = n_state a \<and> n_vocab a' = n_vocab a \<and>
        vocab_size m' = vocab_size m"
proof (induction calls arbitrary: m a)
  case Nil
  then show ?case by simp
next
  case (Cons c cs)
  obtain f t g where c: "c = (f, t, g)" by (cases c)
  from Cons.prems c obtain m1 where
    m1: "add_connect f t g m = Inr m1" and rest: "apply_calls add_connect cs m1 = Inr m'"
    by (auto simp: bind_err_eq_Inr)
  from add_connect_matrix [OF m1 Cons.prems(2)] obtain a1 where
    a1: "matrix m1 = Some a1" "add_connect_loop f t g a = Inr a1" "vocab_size m1 = vocab_size m"
    by blast
  from Cons.IH [OF rest a1(1)] add_connect_loop_shape [OF a1(2)] a1(3)
  show ?case by simp
qed

lemma apply_calls_cell_diag:
  "apply_calls add_connect calls m = Inr m' \<Longrightarrow> matrix m = Some a \<Longrightarrow> matrix m' = Some a' \<Longrightarrow>
   cell a' x x z = (if routed_out calls x z then 0 else cell a x x z)"
proof (induction calls arbitrary: m a)
  case Nil
  then show ?case by (simp add: routed_out_def)
next
  case (Cons c cs)
  obtain f t g where c: "c = (f, t, g)" by (cases c)
  from Cons.prems(1) obtain m1 where
    m1: "add_connect f t g m = Inr m1" and rest: "apply_calls add_connect cs m1 = Inr m'"
    unfolding c apply_calls.simps bind_err_eq_Inr by blast
  from add_connect_matrix [OF m1 Cons.prems(2)] obtain a1 where
    a1: "matrix m1 = Some a1" "add_connect_loop f t g a = Inr a1"
    by blast
  have step: "cell a' x x z = (if routed_out cs x z then 0 else cell a1 x x z)"
    by (rule Cons.IH [OF rest a1(1) Cons.prems(3)])
  have one: "cell a1 x x z = (if z \<in> set g \<and> x = f then 0 else cell a x x z)"
    by (simp add: add_connect_loop_cell [OF a1(2)])
  show ?case
    unfolding step one c routed_out_Cons by auto
qed

lemma apply_calls_cell_off:
  "apply_calls add_connect calls m = Inr m' \<Longrightarrow> matrix m = Some a \<Longrightarrow> matrix m' = Some a' \<Longrightarrow>
   x \<noteq> y \<Longrightarrow> cell a' x y z = (if routed calls x y z then 1 else cell a x y z)"
proof (induction calls arbitrary: m a)
  case Nil
  then show ?case by (simp add: routed_def)
next
  case (Cons c cs)
  obtain f t g where c: "c = (f, t, g)" by (cases c)
  from Cons.prems(1) obtain m1 where
    m1: "add_connect f t g m = Inr m1" and rest: "apply_calls add_connect cs m1 = Inr m'"
    unfolding c apply_calls.simps bind_err_eq_Inr by blast
  from add_connect_matrix [OF m1 Cons.prems(2)] obtain a1 where
    a1: "matrix m1 = Some a1" "add_connect_loop f t g a = Inr a1"
    by blast
  have step: "cell a' x y z = (if routed cs x y z then 1 else cell a1 x y z)"
    by (rule Cons.IH [OF rest a1(1) Cons.prems(3) Cons.prems(4)])
  have one: "cell a1 x y z = (if z \<in> set g \<and> x = f \<and> y = t then 1 else cell a x y z)"
    using Cons.prems(4) by (simp add: add_connect_loop_cell [OF a1(2)])
  show ?case
    unfolding step one c routed_Cons by auto
qed

subsection \<open>Recording the calls\<close>

lemma apply_calls_append:
  "apply_calls conn (cs @ ds) m = bind_err (apply_calls conn cs m) (apply_calls conn ds)"
proof (induction cs arbitrary: m)
  case Nil
  then show ?case by simp
next
  case (Cons c cs)
  obtain f t g where c: "c = (f, t, g)" by (cases c)
  show ?case
    by (cases "conn f t g m") (simp_all add: c Cons.IH)
qed

lemma apply_calls_snoc:
  "apply_calls conn cs m0 = Inr m \<Longrightarrow> conn f t g m = Inr m1 \<Longrightarrow>
   apply_calls conn (cs @ [(f, t, g)]) m0 = Inr m1"
  by (simp add: apply_calls_append)

lemma log_connect_bind [simp]:
  "bind_err (log_connect f t g cs) K = K (cs @ [(f, t, g)])"
  by (simp add: log_connect_def)

lemma wire_level1_sim:
  "wire_level1 conn mapping g js (m, s) = Inr (m', n) \<Longrightarrow> apply_calls conn cs m0 = Inr m \<Longrightarrow>
   follows conn m0 (wire_level1 log_connect mapping g js (cs, s)) m' n"
proof (induction js arbitrary: m cs)
  case Nil
  then show ?case by (simp add: follows_def)
next
  case (Cons j js)
  show ?case
  proof (cases "mapping j")
    case None
    with Cons show ?thesis by simp
  next
    case (Some to_state)
    with Cons.prems(1) obtain m1 where
      m1: "conn j to_state g m = Inr m1" and
      rest: "wire_level1 conn mapping g js (m1, s) = Inr (m', n)"
      by (auto simp: bind_err_eq_Inr)
    from Cons.IH [OF rest apply_calls_snoc [OF Cons.prems(2) m1]] Some
    show ?thesis by simp
  qed
qed

lemma wire_level2_sim:
  "wire_level2 conn mapping g1 g2 js (m, s) = Inr (m', n) \<Longrightarrow> apply_calls conn cs m0 = Inr m \<Longrightarrow>
   follows conn m0 (wire_level2 log_connect mapping g1 g2 js (cs, s)) m' n"
proof (induction js arbitrary: m cs s)
  case Nil
  then show ?case by (simp add: follows_def)
next
  case (Cons j js)
  show ?case
  proof (cases "mapping j")
    case None
    with Cons show ?thesis by simp
  next
    case (Some to_state)
    with Cons.prems(1) obtain m1 m2 where
      m1: "conn j s g1 m = Inr m1" and
      m2: "conn s to_state g2 m1 = Inr m2" and
      rest: "wire_level2 conn mapping g1 g2 js (m2, s + 1) = Inr (m', n)"
      by (auto simp: bind_err_eq_Inr)
    note a1 = apply_calls_snoc [OF Cons.prems(2) m1]
    note a2 = apply_calls_snoc [OF a1 m2]
    from Cons.IH [OF rest a2] Some
    show ?thesis by simp
  qed
qed

lemma wire_level3_sim:
  "wire_level3 conn mapping g1 g2 g3 js (m, s) = Inr (m', n) \<Longrightarrow> apply_calls conn cs m0 = Inr m \<Longrightarrow>
   follows conn m0 (wire_level3 log_connect mapping g1 g2 g3 js (cs, s)) m' n"
proof (induction js arbitrary: m cs s)
  case Nil
  then show ?case by (simp add: follows_def)
next
  case (Cons j js)
  show ?case
  proof (cases "mapping j")
    case None
    with Cons show ?thesis by simp
  next
    case (Some to_state)
    with Cons.prems(1) obtain m1 m2 m3 where
      m1: "conn j s g1 m = Inr m1" and
      m2: "conn s (s + 1) g2 m1 = Inr m2" and
      m3: "conn (s + 1) to_state g3 m2 = Inr m3" and
      rest: "wire_level3 conn mapping g1 g2 g3 js (m3, s + 2) = Inr (m', n)"
      by (auto simp: bind_err_eq_Inr)
    note a1 = apply_calls_snoc [OF Cons.prems(2) m1]
    note a2 = apply_calls_snoc [OF a1 m2]
    note a3 = apply_calls_snoc [OF a2 m3]
    from Cons.IH [OF rest a3] Some
    show ?thesis by simp
  qed
qed

lemma list_upto_three:
  obtains (none) "xs = []"
    | (one) w where "xs = [w]"
    | (two) s1 s2 where "xs = [s1, s2]"
    | (three) s1 s2 s3 where "xs = [s1, s2, s3]"
    | (more) s1 s2 s3 s4 rest where "xs = s1 # s2 # s3 # s4 # rest"
proof (cases xs)
  case Nil
  then show ?thesis by (rule none)
next
  case c1: (Cons s1 r1)
  show ?thesis
  proof (cases r1)
    case Nil
    with c1 show ?thesis by (simp add: one)
  next
    case c2: (Cons s2 r2)
    show ?thesis
    proof (cases r2)
      case Nil
      with c1 c2 show ?thesis by (simp add: two)
    next
      case c3: (Cons s3 r3)
      show ?thesis
      proof (cases r3)
        case Nil
        with c1 c2 c3 show ?thesis by (simp add: three)
      next
        case (Cons s4 rest)
        with c1 c2 c3 show ?thesis by (simp add: more)
      qed
    qed
  qed
qed

lemma wire_candidate_sim:
  assumes run: "wire_candidate conn self i target (m, s) = Inr (m', n)"
    and inv: "apply_calls conn cs m0 = Inr m"
  shows "follows conn m0 (wire_candidate log_connect self i target (cs, s)) m' n"
proof (cases "str_split target" rule: list_upto_three)
  case none
  with run inv show ?thesis
    by (simp add: wire_candidate_def follows_def)
next
  case (one w)
  let ?g = "get_word_set self target"
  from run one obtain m1 m2 mapping where
    m1: "conn 0 (i + 1) ?g m = Inr m1" and
    m2: "conn (i + 4) 7 ?g m1 = Inr m2" and
    mp: "level_mapping_at i = Inr mapping" and
    rest: "wire_level1 conn mapping ?g [1..<4] (m2, s) = Inr (m', n)"
    by (auto simp: wire_candidate_def Let_def bind_err_eq_Inr)
  note a1 = apply_calls_snoc [OF inv m1]
  note a2 = apply_calls_snoc [OF a1 m2]
  from wire_level1_sim [OF rest a2] one mp show ?thesis
    by (simp add: wire_candidate_def Let_def)
next
  case (two s1 s2)
  let ?g1 = "get_word_set self s1" and ?g2 = "get_word_set self s2"
  from run two obtain m1 m2 m3 m4 mapping where
    m1: "conn 0 s ?g1 m = Inr m1" and
    m2: "conn s (i + 1) ?g2 m1 = Inr m2" and
    m3: "conn (i + 4) (s + 1) ?g1 m2 = Inr m3" and
    m4: "conn (s + 1) 7 ?g2 m3 = Inr m4" and
    mp: "level_mapping_at i = Inr mapping" and
    rest: "wire_level2 conn mapping ?g1 ?g2 [1..<4] (m4, s + 1 + 1) = Inr (m', n)"
    by (auto simp: wire_candidate_def Let_def bind_err_eq_Inr)
  note a1 = apply_calls_snoc [OF inv m1]
  note a2 = apply_calls_snoc [OF a1 m2]
  note a3 = apply_calls_snoc [OF a2 m3]
  note a4 = apply_calls_snoc [OF a3 m4]
  from wire_level2_sim [OF rest a4] two mp show ?thesis
    by (simp add: wire_candidate_def Let_def)
next
  case (three s1 s2 s3)
  let ?g1 = "get_word_set self s1" and ?g2 = "get_word_set self s2"
    and ?g3 = "get_word_set self s3"
  from run three obtain m1 m2 m3 m4 m5 m6 mapping where
    m1: "conn 0 s ?g1 m = Inr m1" and
    m2: "conn s (s + 1) ?g2 m1 = Inr m2" and
    m3: "conn (s + 1) (i + 1) ?g3 m2 = Inr m3" and
    m4: "conn (i + 4) (s + 2) ?g1 m3 = Inr m4" and
    m5: "conn (s + 2) (s + 2 + 1) ?g2 m4 = Inr m5" and
    m6: "conn (s + 2 + 1) 7 ?g3 m5 = Inr m6" and
    mp: "level_mapping_at i = Inr mapping" and
    rest: "wire_level3 conn mapping ?g1 ?g2 ?g3 [1..<4] (m6, s + 2 + 2) = Inr (m', n)"
    by (auto simp: wire_candidate_def Let_def bind_err_eq_Inr)
  note a1 = apply_calls_snoc [OF inv m1]
  note a2 = apply_calls_snoc [OF a1 m2]
  note a3 = apply_calls_snoc [OF a2 m3]
  note a4 = apply_calls_snoc [OF a3 m4]
  note a5 = apply_calls_snoc [OF a4 m5]
  note a6 = apply_calls_snoc [OF a5 m6]
  from wire_level3_sim [OF rest a6] three mp show ?thesis
    by (simp add: wire_candidate_def Let_def)
next
  case (more s1 s2 s3 s4 rest)
  with run inv show ?thesis
    by (simp add: wire_candidate_def follows_def)
qed

lemma wire_candidates_sim:
  "wire_candidates conn self i candidates (m, s) = Inr (m', n) \<Longrightarrow>
   apply_calls conn cs m0 = Inr m \<Longrightarrow>
   follows conn m0 (wire_candidates log_connect self i candidates (cs, s)) m' n"
proof (induction candidates arbitrary: i m s cs)
  case Nil
  then show ?case by (simp add: follows_def)
next
  case (Cons target rest)
  from Cons.prems(1) obtain m1 s1 where
    one: "wire_candidate conn self i target (m, s) = Inr (m1, s1)" and
    more: "wire_candidates conn self (i + 1) rest (m1, s1) = Inr (m', n)"
    by (auto simp: bind_err_eq_Inr)
  from wire_candidate_sim [OF one Cons.prems(2)] obtain cs1 where
    l1: "wire_candidate log_connect self i target (cs, s) = Inr (cs1, s1)" and
    a1: "apply_calls conn cs1 m0 = Inr m1"
    by (auto simp: follows_def)
  from Cons.IH [OF more a1] l1 show ?case by simp
qed

lemma level_mapping_at_simps:
  "level_mapping_at 0 = Inr [3 \<mapsto> 5, 2 \<mapsto> 6]"
  "level_mapping_at 1 = Inr [1 \<mapsto> 6, 3 \<mapsto> 4]"
  "level_mapping_at 2 = Inr [1 \<mapsto> 5, 2 \<mapsto> 4]"
  "level_mapping_at (Suc 0) = Inr [1 \<mapsto> 6, 3 \<mapsto> 4]"
  "3 \<le> i \<Longrightarrow> level_mapping_at i = Inl IndexError"
  by (simp_all add: level_mapping_at_def level_mapping_def py_index_def)

lemma range_1_4: "[1..<4] = [1, 2, 3]" "[Suc 0..<4] = [1, 2, 3]"
  by (simp_all add: upt_rec)

lemma wire_candidate_log_0:
  assumes "1 \<le> length (str_split target)" "length (str_split target) \<le> 3"
  shows "wire_candidate log_connect self 0 target (cs, s) =
    (let gs = phrase_groups self target; d = length gs - 1 in
     Inr (cs @ chain 0 1 gs s @ chain 4 7 gs (s + d) @ chain 2 6 gs (s + 2 * d) @
          chain 3 5 gs (s + 3 * d), s + 4 * d))"
  using assms
  by (cases "str_split target" rule: list_upto_three)
     (simp_all add: wire_candidate_def Let_def phrase_groups_def level_mapping_at_simps range_1_4)

lemma wire_candidate_log_1:
  assumes "1 \<le> length (str_split target)" "length (str_split target) \<le> 3"
  shows "wire_candidate log_connect self 1 target (cs, s) =
    (let gs = phrase_groups self target; d = length gs - 1 in
     Inr (cs @ chain 0 2 gs s @ chain 5 7 gs (s + d) @ chain 1 6 gs (s + 2 * d) @
          chain 3 4 gs (s + 3 * d), s + 4 * d))"
  using assms
  by (cases "str_split target" rule: list_upto_three)
     (simp_all add: wire_candidate_def Let_def phrase_groups_def level_mapping_at_simps range_1_4)

lemma wire_candidate_log_2:
  assumes "1 \<le> length (str_split target)" "length (str_split target) \<le> 3"
  shows "wire_candidate log_connect self 2 target (cs, s) =
    (let gs = phrase_groups self target; d = length gs - 1 in
     Inr (cs @ chain 0 3 gs s @ chain 6 7 gs (s + d) @ chain 1 5 gs (s + 2 * d) @
          chain 2 4 gs (s + 3 * d), s + 4 * d))"
  using assms
  by (cases "str_split target" rule: list_upto_three)
     (simp_all add: wire_candidate_def Let_def phrase_groups_def level_mapping_at_simps range_1_4)

lemma wire_candidate_log_skip:
  "str_split target = [] \<or> 3 < length (str_split target) \<Longrightarrow>
   wire_candidate log_connect self i target (cs, s) = Inr (cs, s)"
  by (cases "str_split target" rule: list_upto_three)
     (simp_all add: wire_candidate_def)

lemma wire_candidate_log_fail:
  "3 \<le> i \<Longrightarrow> 1 \<le> length (str_split target) \<Longrightarrow> length (str_split target) \<le> 3 \<Longrightarrow>
   wire_candidate conn self i target (m, s) = Inr r \<Longrightarrow> False"
  by (cases "str_split target" rule: list_upto_three)
     (auto simp: wire_candidate_def Let_def level_mapping_at_simps bind_err_eq_Inr)

subsection \<open>Fresh auxiliary states\<close>

lemma upt_from:
  "[s..<s + 4] = [s, s + 1, s + 2, s + 3]"
  "[s..<s + 8] = [s, s + 1, s + 2, s + 3, s + 4, s + 5, s + 6, s + 7]"
  by (simp_all add: upt_conv_Cons)

lemma upt_join: "s \<le> k \<Longrightarrow> k \<le> n \<Longrightarrow> [s..<k] @ [k..<n] = [s..<n]"
  by (metis le_Suc_ex upt_add_eq_append)

lemma fresh_calls_Nil: "fresh_calls [] s s"
  by (simp add: fresh_calls_def aux_sources_def aux_targets_def)

lemma fresh_calls_append:
  "fresh_calls xs s k \<Longrightarrow> fresh_calls ys k n \<Longrightarrow> fresh_calls (xs @ ys) s n"
  by (auto simp: fresh_calls_def aux_sources_def aux_targets_def upt_join)

lemma fresh_candidate_0:
  assumes "1 \<le> length gs" "length gs \<le> 3" "8 \<le> s"
  shows "fresh_calls (chain 0 1 gs s @ chain 4 7 gs (s + (length gs - 1)) @
           chain 2 6 gs (s + 2 * (length gs - 1)) @ chain 3 5 gs (s + 3 * (length gs - 1)))
           s (s + 4 * (length gs - 1))"
  using assms
  by (cases gs rule: list_upto_three)
     (simp_all add: fresh_calls_def aux_sources_def aux_targets_def upt_from)

lemma fresh_candidate_1:
  assumes "1 \<le> length gs" "length gs \<le> 3" "8 \<le> s"
  shows "fresh_calls (chain 0 2 gs s @ chain 5 7 gs (s + (length gs - 1)) @
           chain 1 6 gs (s + 2 * (length gs - 1)) @ chain 3 4 gs (s + 3 * (length gs - 1)))
           s (s + 4 * (length gs - 1))"
  using assms
  by (cases gs rule: list_upto_three)
     (simp_all add: fresh_calls_def aux_sources_def aux_targets_def upt_from)

lemma fresh_candidate_2:
  assumes "1 \<le> length gs" "length gs \<le> 3" "8 \<le> s"
  shows "fresh_calls (chain 0 3 gs s @ chain 6 7 gs (s + (length gs - 1)) @
           chain 1 5 gs (s + 2 * (length gs - 1)) @ chain 2 4 gs (s + 3 * (length gs - 1)))
           s (s + 4 * (length gs - 1))"
  using assms
  by (cases gs rule: list_upto_three)
     (simp_all add: fresh_calls_def aux_sources_def aux_targets_def upt_from)

lemma length_phrase_groups: "length (phrase_groups self target) = length (str_split target)"
  by (cases "str_split target" rule: list_upto_three) (simp_all add: phrase_groups_def)

lemma wire_candidate_log_fresh:
  assumes run: "wire_candidate log_connect self i target (cs, s) = Inr (cs', n)"
    and s: "8 \<le> s"
  shows "\<exists>new. cs' = cs @ new \<and> fresh_calls new s n"
proof (cases "1 \<le> length (str_split target) \<and> length (str_split target) \<le> 3")
  case False
  then have "str_split target = [] \<or> 3 < length (str_split target)"
    by (cases "str_split target") auto
  from wire_candidate_log_skip [OF this] run show ?thesis
    by (simp add: fresh_calls_Nil)
next
  case True
  then have len: "1 \<le> length (str_split target)" "length (str_split target) \<le> 3"
    by simp_all
  have "i < 3"
    using wire_candidate_log_fail [OF _ len run] by (cases "i < 3") simp_all
  then consider "i = 0" | "i = 1" | "i = 2" by linarith
  then show ?thesis
  proof cases
    case 1
    with run wire_candidate_log_0 [OF len, of self cs s]
      fresh_candidate_0 [of "phrase_groups self target" s] len s
    show ?thesis by (auto simp: Let_def length_phrase_groups)
  next
    case 2
    with run wire_candidate_log_1 [OF len, of self cs s]
      fresh_candidate_1 [of "phrase_groups self target" s] len s
    show ?thesis by (auto simp: Let_def length_phrase_groups)
  next
    case 3
    with run wire_candidate_log_2 [OF len, of self cs s]
      fresh_candidate_2 [of "phrase_groups self target" s] len s
    show ?thesis by (auto simp: Let_def length_phrase_groups)
  qed
qed

lemma wire_candidates_log_fresh:
  "wire_candidates log_connect self i candidates (cs, s) = Inr (cs', n) \<Longrightarrow> 8 \<le> s \<Longrightarrow>
   \<exists>new. cs' = cs @ new \<and> fresh_calls new s n"
proof (induction candidates arbitrary: i cs s)
  case Nil
  then show ?case by (simp add: fresh_calls_Nil)
next
  case (Cons target rest)
  from Cons.prems(1) obtain cs1 s1 where
    one: "wire_candidate log_connect self i target (cs, s) = Inr (cs1, s1)" and
    more: "wire_candidates log_connect self (i + 1) rest (cs1, s1) = Inr (cs', n)"
    by (auto simp: bind_err_eq_Inr)
  from wire_candidate_log_fresh [OF one Cons.prems(2)] obtain new1 where
    n1: "cs1 = cs @ new1" "fresh_calls new1 s s1" by blast
  then have "8 \<le> s1" using Cons.prems(2) by (simp add: fresh_calls_def)
  from Cons.IH [OF more this] obtain new2 where
    n2: "cs' = cs1 @ new2" "fresh_calls new2 s1 n" by blast
  from n1 n2 fresh_calls_append [OF n1(2) n2(2)] show ?case by simp
qed

subsection \<open>The examples\<close>

lemma example_split:
  "str_split ''dog'' = [''dog'']"
  "str_split ''frisbee'' = [''frisbee'']"
  "str_split ''cat'' = [''cat'']"
  "str_split ''wood burning stove'' = [''wood'', ''burning'', ''stove'']"
  "str_split ''chest of drawers'' = [''chest'', ''of'', ''drawers'']"
  "str_split ''salt and pepper'' = [''salt'', ''and'', ''pepper'']"
  by (simp_all add: str_split_def isspace_def)

lemma example_word_set:
  "get_word_set example_self ''dog'' = [2]"
  "get_word_set example_self ''frisbee'' = [3]"
  "get_word_set example_self ''cat'' = [4]"
  "get_word_set example_self ''wood'' = [5]"
  "get_word_set example_self ''burning'' = [6]"
  "get_word_set example_self ''stove'' = [7]"
  "get_word_set example_self ''chest'' = [8]"
  "get_word_set example_self ''of'' = [9]"
  "get_word_set example_self ''drawers'' = [10]"
  "get_word_set example_self ''salt'' = [11]"
  "get_word_set example_self ''and'' = [12]"
  "get_word_set example_self ''pepper'' = [13]"
  by code_simp+

lemma example_M: "M example_self = \<lparr>matrix = None, vocab_size = 14\<rparr>"
  by (simp add: example_self_def new_CBSMatrix_def)

lemmas build_defs =
  build_state_matrix_def init_matrix_def np_zeros_def init_row_def set_diag_row_def
  wire_candidate_def level_mapping_at_simps range_1_4
  add_connect_def set_item_def example_split example_word_set example_M

subsection \<open>The tensor a build returns\<close>

lemma init_row_eq:
  "matrix m = Some a \<Longrightarrow> i < n_state a \<Longrightarrow>
   init_row i m = Inr (m\<lparr>matrix := Some (a\<lparr>cell :=
     (\<lambda>x y z. if x = i \<and> y = i \<and> z < n_vocab a then 1 else cell a x y z)\<rparr>)\<rparr>)"
  by (simp add: init_row_def set_diag_row_def)

lemma init_rows_cells:
  "matrix m = Some a \<Longrightarrow> \<forall>i \<in> set rows. i < n_state a \<Longrightarrow>
   \<exists>a'. init_rows rows m = Inr (m\<lparr>matrix := Some a'\<rparr>) \<and>
        n_state a' = n_state a \<and> n_vocab a' = n_vocab a \<and>
        (\<forall>x y z. cell a' x y z =
           (if x = y \<and> x \<in> set rows \<and> z < n_vocab a then 1 else cell a x y z))"
proof (induction rows arbitrary: m a)
  case Nil
  then have "m = m\<lparr>matrix := Some a\<rparr>" by simp
  then show ?case by auto
next
  case (Cons i rows)
  let ?a1 = "a\<lparr>cell := (\<lambda>x y z. if x = i \<and> y = i \<and> z < n_vocab a then 1 else cell a x y z)\<rparr>"
  let ?m1 = "m\<lparr>matrix := Some ?a1\<rparr>"
  have row: "init_row i m = Inr ?m1"
    using Cons.prems by (simp add: init_row_eq)
  have "matrix ?m1 = Some ?a1" "\<forall>i \<in> set rows. i < n_state ?a1"
    using Cons.prems by simp_all
  from Cons.IH [OF this] obtain a' where
    a': "init_rows rows ?m1 = Inr (?m1\<lparr>matrix := Some a'\<rparr>)"
        "n_state a' = n_state ?a1" "n_vocab a' = n_vocab ?a1"
    and cells: "\<And>x y z. cell a' x y z =
           (if x = y \<and> x \<in> set rows \<and> z < n_vocab ?a1 then 1 else cell ?a1 x y z)"
    by blast
  have "init_rows (i # rows) m = Inr (m\<lparr>matrix := Some a'\<rparr>)"
    using row a'(1) by simp
  moreover have "cell a' x y z =
           (if x = y \<and> x \<in> set (i # rows) \<and> z < n_vocab a then 1 else cell a x y z)" for x y z
    unfolding cells by auto
  ultimately show ?case using a'(2,3) by auto
qed

lemma init_rows_26:
  "\<exists>a0. init_rows [0..<26] (init_matrix m0 26) = Inr (m0\<lparr>matrix := Some a0\<rparr>) \<and>
        n_state a0 = 26 \<and> n_vocab a0 = vocab_size m0 \<and>
        (\<forall>x y z. cell a0 x y z = (if x = y \<and> x < 26 \<and> z < vocab_size m0 then 1 else 0))"
proof -
  let ?z = "np_zeros 26 (vocab_size m0)"
  have "matrix (init_matrix m0 26) = Some ?z" "\<forall>i \<in> set [0..<26]. i < n_state ?z"
    by (simp_all add: init_matrix_def np_zeros_def)
  from init_rows_cells [OF this] show ?thesis
    by (auto simp: init_matrix_def np_zeros_def)
qed

lemma apply_calls_range:
  "apply_calls add_connect calls m = Inr m' \<Longrightarrow> matrix m = Some a \<Longrightarrow>
   (f, t, g) \<in> set calls \<Longrightarrow> w \<in> set g \<Longrightarrow>
   f < n_state a \<and> t < n_state a \<and> w < n_vocab a"
proof (induction calls arbitrary: m a)
  case Nil
  then show ?case by simp
next
  case (Cons c cs)
  obtain f1 t1 g1 where c: "c = (f1, t1, g1)" by (cases c)
  from Cons.prems(1) obtain m1 where
    m1: "add_connect f1 t1 g1 m = Inr m1" and rest: "apply_calls add_connect cs m1 = Inr m'"
    unfolding c apply_calls.simps bind_err_eq_Inr by blast
  from add_connect_matrix [OF m1 Cons.prems(2)] obtain a1 where
    a1: "matrix m1 = Some a1" "add_connect_loop f1 t1 g1 a = Inr a1"
    by blast
  show ?case
  proof (cases "(f, t, g) = c")
    case True
    with c have "w \<in> set g1" using Cons.prems(4) by simp
    from add_connect_loop_range [OF a1(2) this] True c
    show ?thesis by simp
  next
    case False
    with Cons.prems(3) have "(f, t, g) \<in> set cs" by simp
    from Cons.IH [OF rest a1(1) this Cons.prems(4)] add_connect_loop_shape [OF a1(2)]
    show ?thesis by simp
  qed
qed

lemma build_state_matrix_Inr:
  assumes "build_state_matrix self candidates = Inr (mo, n, k)"
  shows "\<exists>a calls. mo = Some a \<and> k = length candidates \<and>
           connect_calls self candidates = Inr (calls, n) \<and>
           fresh_calls calls 8 n \<and> built self calls a"
proof -
  obtain a0 where
    init: "init_rows [0..<26] (init_matrix (M self) 26) = Inr ((M self)\<lparr>matrix := Some a0\<rparr>)"
    and a0: "n_state a0 = 26" "n_vocab a0 = vocab_size (M self)"
    and cells0: "\<And>x y z. cell a0 x y z =
       (if x = y \<and> x < 26 \<and> z < vocab_size (M self) then 1 else 0)"
    using init_rows_26 [of "M self"] by blast
  let ?m0 = "(M self)\<lparr>matrix := Some a0\<rparr>"
  from assms init obtain m' where
    run: "wire_candidates add_connect self 0 candidates (?m0, 8) = Inr (m', n)"
    and mo: "mo = matrix m'" and k: "k = length candidates"
    by (auto simp: build_state_matrix_def Let_def bind_err_eq_Inr)
  have "apply_calls add_connect [] ?m0 = Inr ?m0" by simp
  from wire_candidates_sim [OF run this] obtain calls where
    calls: "connect_calls self candidates = Inr (calls, n)"
    and app: "apply_calls add_connect calls ?m0 = Inr m'"
    by (auto simp: follows_def connect_calls_def)
  have m0: "matrix ?m0 = Some a0" by simp
  from apply_calls_matrix [OF app m0] obtain a where
    a: "matrix m' = Some a" "n_state a = n_state a0" "n_vocab a = n_vocab a0"
    by blast
  have fresh: "fresh_calls calls 8 n"
    using calls wire_candidates_log_fresh [of self 0 candidates "[]" 8 calls n]
    by (simp add: connect_calls_def)
  have diag: "cell a x x z =
      (if routed_out calls x z then 0 else if x < 26 \<and> z < vocab_size (M self) then 1 else 0)"
    for x z
    by (simp add: apply_calls_cell_diag [OF app m0 a(1)] cells0)
  have off: "x \<noteq> y \<Longrightarrow> cell a x y z = (if routed calls x y z then 1 else 0)" for x y z
    by (simp add: apply_calls_cell_off [OF app m0 a(1)] cells0)
  have range: "fst c < 26 \<and> fst (snd c) < 26 \<and> w < vocab_size (M self)"
    if "c \<in> set calls" "w \<in> set (snd (snd c))" for c w
    using apply_calls_range [OF app m0, of "fst c" "fst (snd c)" "snd (snd c)" w] that a0
    by simp
  have "built self calls a"
    unfolding built_def using a a0 diag off range by simp
  with mo a(1) k calls fresh show ?thesis by auto
qed

lemma routed_imp_routed_out: "routed calls f t w \<Longrightarrow> routed_out calls f w"
  by (auto simp: routed_def routed_out_def list_ex_iff)

lemma routed_member: "(f, t, g) \<in> set calls \<Longrightarrow> w \<in> set g \<Longrightarrow> routed calls f t w"
  by (auto simp: routed_def list_ex_iff)

lemma example_build_dog_frisbee:
  "\<exists>a. build_state_matrix example_self [''dog'', ''frisbee''] = Inr (Some a, 8, 2)"
  by (simp add: build_defs upt_rec)

lemma example_calls_dog_frisbee:
  "connect_calls example_self [''dog'', ''frisbee''] =
     Inr ([(0, 1, [2]), (4, 7, [2]), (2, 6, [2]), (3, 5, [2]),
           (0, 2, [3]), (5, 7, [3]), (1, 6, [3]), (3, 4, [3])], 8)"
  by (simp add: connect_calls_def build_defs Let_def)

lemma example_connect:
  "\<exists>m'. add_connect 0 1 [2] (init_matrix (new_CBSMatrix 14) 26) = Inr m'"
  by (simp add: add_connect_def init_matrix_def np_zeros_def new_CBSMatrix_def set_item_def)

subsection \<open>Candidate selection and further examples\<close>


lemma stove_calls:
  "connect_calls self [''wood burning stove''] =
     Inr ([(0, 8, get_word_set self ''wood''), (8, 9, get_word_set self ''burning''),
           (9, 1, get_word_set self ''stove''),
           (4, 10, get_word_set self ''wood''), (10, 11, get_word_set self ''burning''),
           (11, 7, get_word_set self ''stove''),
           (2, 12, get_word_set self ''wood''), (12, 13, get_word_set self ''burning''),
           (13, 6, get_word_set self ''stove''),
           (3, 14, get_word_set self ''wood''), (14, 15, get_word_set self ''burning''),
           (15, 5, get_word_set self ''stove'')], 16)"
  by (simp add: connect_calls_def wire_candidate_def example_split Let_def
      level_mapping_at_simps range_1_4)

lemma example_build_stove:
  "\<exists>a. build_state_matrix example_self [''wood burning stove''] = Inr (Some a, 16, 1)"
  by (simp add: build_defs upt_rec)

lemma level_mapping_at_Suc_Suc: "level_mapping_at (Suc (Suc 0)) = Inr [1 \<mapsto> 5, 2 \<mapsto> 4]"
  using level_mapping_at_simps(3) by (simp add: numeral_2_eq_2)

lemma example_overflow_calls:
  "map_sum id snd (connect_calls example_self
      [''wood burning stove'', ''chest of drawers'', ''salt and pepper'']) = Inr 32"
  by (simp add: connect_calls_def build_defs Let_def level_mapping_at_Suc_Suc)




lemma build_state_matrix_count:
  "build_state_matrix self candidates = Inr (mo, n, k) \<Longrightarrow> k = length candidates"
  using build_state_matrix_Inr by blast


lemma example_build_three:
  "\<exists>a. build_state_matrix example_self [''dog'', ''frisbee'', ''cat''] = Inr (Some a, 8, 3)"
  by (simp add: build_defs upt_rec level_mapping_at_Suc_Suc)

subsection \<open>Paths through the lattice\<close>

lemma in_reach_Cons:
  "x \<in> set (reach a (w # ws) s) \<longleftrightarrow>
     (\<exists>s'. s' < n_state a \<and> cell a s s' w \<noteq> 0 \<and> x \<in> set (reach a ws s'))"
  by (auto simp: succs_def)

lemma reach_step:
  "cell a s s' w = 1 \<Longrightarrow> s' < n_state a \<Longrightarrow> x \<in> set (reach a ws s') \<Longrightarrow>
   x \<in> set (reach a (w # ws) s)"
  unfolding in_reach_Cons by force

lemma reach_closed:
  assumes step: "\<And>s s' w. P s \<Longrightarrow> s' < n_state a \<Longrightarrow> cell a s s' w \<noteq> 0 \<Longrightarrow> P s'"
  shows "x \<in> set (reach a toks s) \<Longrightarrow> P s \<Longrightarrow> P x"
proof (induction toks arbitrary: s)
  case Nil
  then show ?case by simp
next
  case (Cons w ws)
  from Cons.prems(1) obtain s' where
    s': "s' < n_state a" "cell a s s' w \<noteq> 0" "x \<in> set (reach a ws s')"
    unfolding in_reach_Cons by blast
  from step [OF Cons.prems(2) s'(1,2)] have "P s'" .
  from Cons.IH [OF s'(3) this] show ?case .
qed

lemma reach_tier:
  assumes step: "\<And>s s' w. s \<le> 7 \<Longrightarrow> s' < n_state a \<Longrightarrow> cell a s s' w \<noteq> 0 \<Longrightarrow>
      s' \<le> 7 \<and> tier s' \<le> tier s + 1"
  shows "x \<in> set (reach a toks s) \<Longrightarrow> s \<le> 7 \<Longrightarrow> x \<le> 7 \<and> tier x \<le> tier s + length toks"
proof (induction toks arbitrary: s)
  case Nil
  then show ?case by simp
next
  case (Cons w ws)
  from Cons.prems(1) obtain s' where
    s': "s' < n_state a" "cell a s s' w \<noteq> 0" "x \<in> set (reach a ws s')"
    unfolding in_reach_Cons by blast
  from step [OF Cons.prems(2) s'(1,2)] have t: "s' \<le> 7" "tier s' \<le> tier s + 1" by simp_all
  from Cons.IH [OF s'(3) t(1)] t(2) show ?case by simp
qed

lemma single_word_calls:
  assumes "length (str_split target) = 1"
  shows "wire_candidate log_connect self 0 target (cs, s) =
           Inr (cs @ [(0, 1, get_word_set self target), (4, 7, get_word_set self target),
                      (2, 6, get_word_set self target), (3, 5, get_word_set self target)], s)"
    and "wire_candidate log_connect self 1 target (cs, s) =
           Inr (cs @ [(0, 2, get_word_set self target), (5, 7, get_word_set self target),
                      (1, 6, get_word_set self target), (3, 4, get_word_set self target)], s)"
    and "wire_candidate log_connect self (Suc 0) target (cs, s) =
           Inr (cs @ [(0, 2, get_word_set self target), (5, 7, get_word_set self target),
                      (1, 6, get_word_set self target), (3, 4, get_word_set self target)], s)"
    and "wire_candidate log_connect self 2 target (cs, s) =
           Inr (cs @ [(0, 3, get_word_set self target), (6, 7, get_word_set self target),
                      (1, 5, get_word_set self target), (2, 4, get_word_set self target)], s)"
    and "wire_candidate log_connect self (Suc (Suc 0)) target (cs, s) =
           Inr (cs @ [(0, 3, get_word_set self target), (6, 7, get_word_set self target),
                      (1, 5, get_word_set self target), (2, 4, get_word_set self target)], s)"
proof -
  from assms obtain w where w: "str_split target = [w]"
    by (cases "str_split target" rule: list_upto_three) simp_all
  show "wire_candidate log_connect self 0 target (cs, s) =
           Inr (cs @ [(0, 1, get_word_set self target), (4, 7, get_word_set self target),
                      (2, 6, get_word_set self target), (3, 5, get_word_set self target)], s)"
    using wire_candidate_log_0 [of target self cs s] w by (simp add: phrase_groups_def)
  show l1: "wire_candidate log_connect self 1 target (cs, s) =
           Inr (cs @ [(0, 2, get_word_set self target), (5, 7, get_word_set self target),
                      (1, 6, get_word_set self target), (3, 4, get_word_set self target)], s)"
    using wire_candidate_log_1 [of target self cs s] w by (simp add: phrase_groups_def)
  then show "wire_candidate log_connect self (Suc 0) target (cs, s) =
           Inr (cs @ [(0, 2, get_word_set self target), (5, 7, get_word_set self target),
                      (1, 6, get_word_set self target), (3, 4, get_word_set self target)], s)"
    by simp
  show l2: "wire_candidate log_connect self 2 target (cs, s) =
           Inr (cs @ [(0, 3, get_word_set self target), (6, 7, get_word_set self target),
                      (1, 5, get_word_set self target), (2, 4, get_word_set self target)], s)"
    using wire_candidate_log_2 [of target self cs s] w by (simp add: phrase_groups_def)
  then show "wire_candidate log_connect self (Suc (Suc 0)) target (cs, s) =
           Inr (cs @ [(0, 3, get_word_set self target), (6, 7, get_word_set self target),
                      (1, 5, get_word_set self target), (2, 4, get_word_set self target)], s)"
    by (simp add: numeral_2_eq_2)
qed

lemma three_single_calls:
  assumes "length (str_split c0) = 1" "length (str_split c1) = 1" "length (str_split c2) = 1"
  shows "connect_calls self [c0, c1, c2] =
    Inr ([(0, 1, get_word_set self c0), (4, 7, get_word_set self c0),
          (2, 6, get_word_set self c0), (3, 5, get_word_set self c0),
          (0, 2, get_word_set self c1), (5, 7, get_word_set self c1),
          (1, 6, get_word_set self c1), (3, 4, get_word_set self c1),
          (0, 3, get_word_set self c2), (6, 7, get_word_set self c2),
          (1, 5, get_word_set self c2), (2, 4, get_word_set self c2)], 8)"
  by (simp add: connect_calls_def single_word_calls [OF assms(1)] single_word_calls [OF assms(2)]
      single_word_calls [OF assms(3)])

lemma two_single_calls:
  assumes "length (str_split c0) = 1" "length (str_split c1) = 1"
  shows "connect_calls self [c0, c1] =
    Inr ([(0, 1, get_word_set self c0), (4, 7, get_word_set self c0),
          (2, 6, get_word_set self c0), (3, 5, get_word_set self c0),
          (0, 2, get_word_set self c1), (5, 7, get_word_set self c1),
          (1, 6, get_word_set self c1), (3, 4, get_word_set self c1)], 8)"
  by (simp add: connect_calls_def single_word_calls [OF assms(1)] single_word_calls [OF assms(2)])

lemma perms_of_three:
  assumes "distinct p" "set p = {0, 1, 2::nat}"
  shows "p = [0, 1, 2] \<or> p = [0, 2, 1] \<or> p = [1, 0, 2] \<or> p = [1, 2, 0] \<or>
         p = [2, 0, 1] \<or> p = [2, 1, 0]"
proof -
  have "length p = 3" using assms distinct_card [of p] by simp
  then obtain x y z where p: "p = [x, y, z]"
    by (cases p rule: list_upto_three) simp_all
  have "x \<in> set p" "y \<in> set p" "z \<in> set p" using p by simp_all
  then have m: "x = 0 \<or> x = 1 \<or> x = 2" "y = 0 \<or> y = 1 \<or> y = 2" "z = 0 \<or> z = 1 \<or> z = 2"
    unfolding assms(2) by simp_all
  have d: "x \<noteq> y" "x \<noteq> z" "y \<noteq> z" using assms(1) p by simp_all
  from m d show ?thesis unfolding p by (elim disjE) simp_all
qed

lemma built_edge:
  "built self calls a \<Longrightarrow> (s, s', g) \<in> set calls \<Longrightarrow> s \<noteq> s' \<Longrightarrow> w \<in> set g \<Longrightarrow>
   cell a s s' w = 1"
  using routed_member [of s s' g calls w] by (simp add: built_def)

lemma built_step:
  "built self calls a \<Longrightarrow> cell a s s' w \<noteq> 0 \<Longrightarrow>
   s' = s \<or> (s, s') \<in> set (map (\<lambda>c. (fst c, fst (snd c))) calls)"
proof (cases "s' = s")
  case True
  then show ?thesis by simp
next
  case False
  assume "built self calls a" "cell a s s' w \<noteq> 0"
  with False have "routed calls s s' w"
    by (auto simp: built_def split: if_splits)
  then obtain g where "(s, s', g) \<in> set calls"
    by (auto simp: routed_def list_ex_iff)
  then have "(fst (s, s', g), fst (snd (s, s', g))) \<in> (\<lambda>c. (fst c, fst (snd c))) ` set calls"
    by (rule imageI)
  then show ?thesis by simp
qed

lemma path3:
  "cell a 0 s1 x = 1 \<Longrightarrow> cell a s1 s2 y = 1 \<Longrightarrow> cell a s2 7 z = 1 \<Longrightarrow>
   s1 < n_state a \<Longrightarrow> s2 < n_state a \<Longrightarrow> 7 < n_state a \<Longrightarrow>
   7 \<in> set (reach a [x, y, z] 0)"
  by (intro reach_step [where s' = s1] reach_step [where s' = s2] reach_step [where s' = 7]) simp_all

lemma path2:
  "cell a 0 s1 x = 1 \<Longrightarrow> cell a s1 s2 y = 1 \<Longrightarrow> s1 < n_state a \<Longrightarrow> s2 < n_state a \<Longrightarrow>
   s2 \<in> set (reach a [x, y] 0)"
  by (intro reach_step [where s' = s1] reach_step [where s' = s2]) simp_all

lemma three_single_lattice:
  assumes build: "build_state_matrix self [c0, c1, c2] = Inr (Some a, n, k)"
    and single: "length (str_split c0) = 1" "length (str_split c1) = 1"
      "length (str_split c2) = 1"
  shows "n = 8 \<and> k = 3"
    and "\<And>x y z. x \<in> set (get_word_set self c0) \<Longrightarrow> y \<in> set (get_word_set self c1) \<Longrightarrow>
           z \<in> set (get_word_set self c2) \<Longrightarrow>
           7 \<in> set (reach a [x, y, z] 0) \<and> 7 \<in> set (reach a [x, z, y] 0) \<and>
           7 \<in> set (reach a [y, x, z] 0) \<and> 7 \<in> set (reach a [y, z, x] 0) \<and>
           7 \<in> set (reach a [z, x, y] 0) \<and> 7 \<in> set (reach a [z, y, x] 0)"
    and "\<And>toks. 7 \<in> set (reach a toks 0) \<Longrightarrow> 3 \<le> length toks"
proof -
  let ?g0 = "get_word_set self c0" and ?g1 = "get_word_set self c1"
    and ?g2 = "get_word_set self c2"
  define C where "C = [(0, 1, ?g0), (4, 7, ?g0), (2, 6, ?g0), (3, 5, ?g0),
             (0, 2, ?g1), (5, 7, ?g1), (1, 6, ?g1), (3, 4, ?g1),
             (0::nat, 3::nat, ?g2), (6, 7, ?g2), (1, 5, ?g2), (2, 4, ?g2)]"
  from build_state_matrix_Inr [OF build] three_single_calls [OF single, of self]
  have nk: "n = 8" "k = 3" and b: "built self C a"
    by (auto simp: C_def)
  from nk show "n = 8 \<and> k = 3" by simp
  have size: "n_state a = 26" using b by (simp add: built_def)
  show "7 \<in> set (reach a [x, y, z] 0) \<and> 7 \<in> set (reach a [x, z, y] 0) \<and>
        7 \<in> set (reach a [y, x, z] 0) \<and> 7 \<in> set (reach a [y, z, x] 0) \<and>
        7 \<in> set (reach a [z, x, y] 0) \<and> 7 \<in> set (reach a [z, y, x] 0)"
    if x: "x \<in> set ?g0" and y: "y \<in> set ?g1" and z: "z \<in> set ?g2" for x y z
  proof -
    have e01: "cell a 0 1 x = 1" by (rule built_edge [OF b _ _ x]) (simp_all add: C_def)
    have e47: "cell a 4 7 x = 1" by (rule built_edge [OF b _ _ x]) (simp_all add: C_def)
    have e26: "cell a 2 6 x = 1" by (rule built_edge [OF b _ _ x]) (simp_all add: C_def)
    have e35: "cell a 3 5 x = 1" by (rule built_edge [OF b _ _ x]) (simp_all add: C_def)
    have e02: "cell a 0 2 y = 1" by (rule built_edge [OF b _ _ y]) (simp_all add: C_def)
    have e57: "cell a 5 7 y = 1" by (rule built_edge [OF b _ _ y]) (simp_all add: C_def)
    have e16: "cell a 1 6 y = 1" by (rule built_edge [OF b _ _ y]) (simp_all add: C_def)
    have e34: "cell a 3 4 y = 1" by (rule built_edge [OF b _ _ y]) (simp_all add: C_def)
    have e03: "cell a 0 3 z = 1" by (rule built_edge [OF b _ _ z]) (simp_all add: C_def)
    have e67: "cell a 6 7 z = 1" by (rule built_edge [OF b _ _ z]) (simp_all add: C_def)
    have e15: "cell a 1 5 z = 1" by (rule built_edge [OF b _ _ z]) (simp_all add: C_def)
    have e24: "cell a 2 4 z = 1" by (rule built_edge [OF b _ _ z]) (simp_all add: C_def)
    have "7 \<in> set (reach a [x, y, z] 0)"
      by (rule path3 [OF e01 e16 e67]) (simp_all add: size)
    moreover have "7 \<in> set (reach a [x, z, y] 0)"
      by (rule path3 [OF e01 e15 e57]) (simp_all add: size)
    moreover have "7 \<in> set (reach a [y, x, z] 0)"
      by (rule path3 [OF e02 e26 e67]) (simp_all add: size)
    moreover have "7 \<in> set (reach a [y, z, x] 0)"
      by (rule path3 [OF e02 e24 e47]) (simp_all add: size)
    moreover have "7 \<in> set (reach a [z, x, y] 0)"
      by (rule path3 [OF e03 e35 e57]) (simp_all add: size)
    moreover have "7 \<in> set (reach a [z, y, x] 0)"
      by (rule path3 [OF e03 e34 e47]) (simp_all add: size)
    ultimately show ?thesis by simp
  qed
  have pairs: "s' = s \<or> (s, s') \<in> {(0, 1), (4, 7), (2, 6), (3, 5), (0, 2), (5, 7), (1, 6),
      (3, 4), (0, 3), (6, 7), (1, 5), (2, 4)}"
    if "cell a s s' w \<noteq> 0" for s s' w
    using built_step [OF b that] by (simp add: C_def)
  have step: "s' \<le> 7 \<and> tier s' \<le> tier s + 1"
    if "s \<le> 7" "s' < n_state a" "cell a s s' w \<noteq> 0" for s s' w
    using pairs [OF that(3)] that(1) by (elim disjE insertE emptyE) (simp_all add: tier_def)
  show "3 \<le> length toks" if "7 \<in> set (reach a toks 0)" for toks
    using reach_tier [of a 7 toks 0] step that by (simp add: tier_def)
qed

lemma two_single_lattice:
  assumes build: "build_state_matrix self [c0, c1] = Inr (Some a, n, k)"
    and single: "length (str_split c0) = 1" "length (str_split c1) = 1"
  shows "n = 8 \<and> k = 2"
    and "\<And>x y. x \<in> set (get_word_set self c0) \<Longrightarrow> y \<in> set (get_word_set self c1) \<Longrightarrow>
           6 \<in> set (reach a [x, y] 0) \<and> 6 \<in> set (reach a [y, x] 0)"
    and "\<And>toks. 7 \<notin> set (reach a toks 0)"
proof -
  let ?g0 = "get_word_set self c0" and ?g1 = "get_word_set self c1"
  define C where "C = [(0, 1, ?g0), (4, 7, ?g0), (2, 6, ?g0), (3, 5, ?g0),
             (0::nat, 2::nat, ?g1), (5, 7, ?g1), (1, 6, ?g1), (3, 4, ?g1)]"
  from build_state_matrix_Inr [OF build] two_single_calls [OF single, of self]
  have nk: "n = 8" "k = 2" and b: "built self C a"
    by (auto simp: C_def)
  from nk show "n = 8 \<and> k = 2" by simp
  have size: "n_state a = 26" using b by (simp add: built_def)
  show "6 \<in> set (reach a [x, y] 0) \<and> 6 \<in> set (reach a [y, x] 0)"
    if x: "x \<in> set ?g0" and y: "y \<in> set ?g1" for x y
  proof -
    have e01: "cell a 0 1 x = 1" by (rule built_edge [OF b _ _ x]) (simp_all add: C_def)
    have e26: "cell a 2 6 x = 1" by (rule built_edge [OF b _ _ x]) (simp_all add: C_def)
    have e02: "cell a 0 2 y = 1" by (rule built_edge [OF b _ _ y]) (simp_all add: C_def)
    have e16: "cell a 1 6 y = 1" by (rule built_edge [OF b _ _ y]) (simp_all add: C_def)
    have "6 \<in> set (reach a [x, y] 0)"
      by (rule path2 [OF e01 e16]) (simp_all add: size)
    moreover have "6 \<in> set (reach a [y, x] 0)"
      by (rule path2 [OF e02 e26]) (simp_all add: size)
    ultimately show ?thesis by simp
  qed
  have pairs: "s' = s \<or> (s, s') \<in> {(0, 1), (4, 7), (2, 6), (3, 5), (0, 2), (5, 7), (1, 6),
      (3, 4)}"
    if "cell a s s' w \<noteq> 0" for s s' w
    using built_step [OF b that] by (simp add: C_def)
  have step: "s' \<in> {0, 1, 2, 6}"
    if "s \<in> {0, 1, 2, 6}" "s' < n_state a" "cell a s s' w \<noteq> 0" for s s' w
    using pairs [OF that(3)] that(1) by (elim disjE insertE emptyE) simp_all
  show "7 \<notin> set (reach a toks 0)" for toks
  proof
    assume "7 \<in> set (reach a toks 0)"
    from reach_closed [of "\<lambda>s. s \<in> {0, 1, 2, 6}" a 7 toks 0, OF step this]
    show False by simp
  qed
qed

subsection \<open>The only exception of a build is IndexError\<close>


lemma index_error_or_Inr: "P x \<Longrightarrow> index_error_or P (Inr x)"
  by (simp add: index_error_or_def)
















subsection \<open>Fewer than three candidates, and empty word groups\<close>

lemma built_step_token:
  assumes "built self calls a" "cell a s s' w \<noteq> 0"
  shows "s' = s \<or> (\<exists>g. (s, s', g) \<in> set calls \<and> w \<in> set g)"
proof (cases "s' = s")
  case True
  then show ?thesis by simp
next
  case False
  with assms have "routed calls s s' w"
    by (auto simp: built_def split: if_splits)
  then show ?thesis
    by (auto simp: routed_def list_ex_iff)
qed

lemma one_single_calls:
  assumes "length (str_split c0) = 1"
  shows "connect_calls self [c0] =
    Inr ([(0, 1, get_word_set self c0), (4, 7, get_word_set self c0),
          (2, 6, get_word_set self c0), (3, 5, get_word_set self c0)], 8)"
  by (simp add: connect_calls_def single_word_calls [OF assms])

lemma one_single_lattice:
  assumes build: "build_state_matrix self [c0] = Inr (Some a, n, k)"
    and single: "length (str_split c0) = 1"
  shows "n = 8 \<and> k = 1"
    and "\<And>x. x \<in> set (get_word_set self c0) \<Longrightarrow> 1 \<in> set (reach a [x] 0)"
    and "\<And>toks. 7 \<notin> set (reach a toks 0)"
proof -
  let ?g0 = "get_word_set self c0"
  define C where "C = [(0::nat, 1::nat, ?g0), (4, 7, ?g0), (2, 6, ?g0), (3, 5, ?g0)]"
  from build_state_matrix_Inr [OF build] one_single_calls [OF single, of self]
  have nk: "n = 8" "k = 1" and b: "built self C a"
    by (auto simp: C_def)
  from nk show "n = 8 \<and> k = 1" by simp
  have size: "n_state a = 26" using b by (simp add: built_def)
  show "1 \<in> set (reach a [x] 0)" if x: "x \<in> set ?g0" for x
  proof -
    have e01: "cell a 0 1 x = 1" by (rule built_edge [OF b _ _ x]) (simp_all add: C_def)
    show ?thesis
      by (rule reach_step [OF e01]) (simp_all add: size)
  qed
  have pairs: "s' = s \<or> (s, s') \<in> {(0, 1), (4, 7), (2, 6), (3, 5)}"
    if "cell a s s' w \<noteq> 0" for s s' w
    using built_step [OF b that] by (simp add: C_def)
  have step: "s' \<in> {0, 1}"
    if "s \<in> {0, 1}" "s' < n_state a" "cell a s s' w \<noteq> 0" for s s' w
    using pairs [OF that(3)] that(1) by (elim disjE insertE emptyE) simp_all
  show "7 \<notin> set (reach a toks 0)" for toks
  proof
    assume "7 \<in> set (reach a toks 0)"
    from reach_closed [of "\<lambda>s. s \<in> {0, 1}" a 7 toks 0, OF step this]
    show False by simp
  qed
qed

lemma three_single_empty:
  assumes build: "build_state_matrix self [c0, c1, c2] = Inr (Some a, n, k)"
    and single: "length (str_split c0) = 1" "length (str_split c1) = 1"
      "length (str_split c2) = 1"
    and empty: "get_word_set self c0 = [] \<or> get_word_set self c1 = [] \<or>
      get_word_set self c2 = []"
  shows "7 \<notin> set (reach a toks 0)"
proof -
  let ?g0 = "get_word_set self c0" and ?g1 = "get_word_set self c1"
    and ?g2 = "get_word_set self c2"
  define C where "C = [(0, 1, ?g0), (4, 7, ?g0), (2, 6, ?g0), (3, 5, ?g0),
             (0, 2, ?g1), (5, 7, ?g1), (1, 6, ?g1), (3, 4, ?g1),
             (0::nat, 3::nat, ?g2), (6, 7, ?g2), (1, 5, ?g2), (2, 4, ?g2)]"
  from build_state_matrix_Inr [OF build] three_single_calls [OF single, of self]
  have b: "built self C a"
    by (auto simp: C_def)
  have edges: "s' = s \<or>
      ((s, s') \<in> {(0, 1), (4, 7), (2, 6), (3, 5)} \<and> ?g0 \<noteq> []) \<or>
      ((s, s') \<in> {(0, 2), (5, 7), (1, 6), (3, 4)} \<and> ?g1 \<noteq> []) \<or>
      ((s, s') \<in> {(0, 3), (6, 7), (1, 5), (2, 4)} \<and> ?g2 \<noteq> [])"
    if "cell a s s' w \<noteq> 0" for s s' w
  proof -
    from built_step_token [OF b that] consider "s' = s"
      | g where "(s, s', g) \<in> set C" "w \<in> set g" by blast
    then show ?thesis
    proof cases
      case 1
      then show ?thesis by simp
    next
      case 2
      from 2(2) have ne: "g \<noteq> []" by auto
      from 2(1) have "(s, s', g) \<in> {(0, 1, ?g0), (4, 7, ?g0), (2, 6, ?g0), (3, 5, ?g0),
             (0, 2, ?g1), (5, 7, ?g1), (1, 6, ?g1), (3, 4, ?g1),
             (0, 3, ?g2), (6, 7, ?g2), (1, 5, ?g2), (2, 4, ?g2)}"
        by (simp add: C_def)
      then show ?thesis using ne by (elim insertE emptyE) simp_all
    qed
  qed
  from empty consider "?g0 = []" | "?g1 = []" | "?g2 = []" by blast
  then show ?thesis
  proof cases
    case 1
    have step: "s' \<in> {0, 2, 3, 4}"
      if "s \<in> {0, 2, 3, 4}" "s' < n_state a" "cell a s s' w \<noteq> 0" for s s' w
      using edges [OF that(3)] that(1) 1 by (elim disjE conjE insertE emptyE) simp_all
    show ?thesis
    proof
      assume "7 \<in> set (reach a toks 0)"
      from reach_closed [of "\<lambda>s. s \<in> {0, 2, 3, 4}" a 7 toks 0, OF step this]
      show False by simp
    qed
  next
    case 2
    have step: "s' \<in> {0, 1, 3, 5}"
      if "s \<in> {0, 1, 3, 5}" "s' < n_state a" "cell a s s' w \<noteq> 0" for s s' w
      using edges [OF that(3)] that(1) 2 by (elim disjE conjE insertE emptyE) simp_all
    show ?thesis
    proof
      assume "7 \<in> set (reach a toks 0)"
      from reach_closed [of "\<lambda>s. s \<in> {0, 1, 3, 5}" a 7 toks 0, OF step this]
      show False by simp
    qed
  next
    case 3
    have step: "s' \<in> {0, 1, 2, 6}"
      if "s \<in> {0, 1, 2, 6}" "s' < n_state a" "cell a s s' w \<noteq> 0" for s s' w
      using edges [OF that(3)] that(1) 3 by (elim disjE conjE insertE emptyE) simp_all
    show ?thesis
    proof
      assume "7 \<in> set (reach a toks 0)"
      from reach_closed [of "\<lambda>s. s \<in> {0, 1, 2, 6}" a 7 toks 0, OF step this]
      show False by simp
    qed
  qed
qed

lemma example_zebra:
  "str_split ''zebra'' = [''zebra'']" "get_word_set example_self ''zebra'' = []"
  by (simp add: str_split_def isspace_def) code_simp

lemma example_build_zebra:
  "\<exists>a. build_state_matrix example_self [''dog'', ''frisbee'', ''zebra''] = Inr (Some a, 8, 3)"
  by (simp add: build_defs upt_rec level_mapping_at_Suc_Suc example_zebra)

lemma example_build_dog:
  "\<exists>a. build_state_matrix example_self [''dog''] = Inr (Some a, 8, 1)"
  by (simp add: build_defs upt_rec)

lemma three_single_exists:
  assumes lat: "\<And>x y z. x \<in> set g0 \<Longrightarrow> y \<in> set g1 \<Longrightarrow> z \<in> set g2 \<Longrightarrow>
           7 \<in> set (reach a [x, y, z] 0) \<and> 7 \<in> set (reach a [x, z, y] 0) \<and>
           7 \<in> set (reach a [y, x, z] 0) \<and> 7 \<in> set (reach a [y, z, x] 0) \<and>
           7 \<in> set (reach a [z, x, y] 0) \<and> 7 \<in> set (reach a [z, y, x] 0)"
    and ne: "g0 \<noteq> []" "g1 \<noteq> []" "g2 \<noteq> []"
    and p: "distinct p" "set p = {0, 1, 2}"
  shows "\<exists>toks. length toks = 3 \<and> (\<forall>j < 3. toks ! j \<in> set ([g0, g1, g2] ! (p ! j))) \<and>
           7 \<in> set (reach a toks 0)"
proof -
  from ne obtain x y z where m: "x \<in> set g0" "y \<in> set g1" "z \<in> set g2"
    by (meson last_in_set)
  note l = lat [OF m]
  have all3: "(\<forall>j < 3. P j) \<longleftrightarrow> P 0 \<and> P 1 \<and> P (2::nat)" for P
    by (auto simp: less_Suc_eq numeral_3_eq_3 numeral_2_eq_2)
  from perms_of_three [OF p] consider
    "p = [0, 1, 2]" | "p = [0, 2, 1]" | "p = [1, 0, 2]" | "p = [1, 2, 0]" |
    "p = [2, 0, 1]" | "p = [2, 1, 0]" by blast
  then show ?thesis
  proof cases
    case 1
    with m l show ?thesis
      by (intro exI [of _ "[x, y, z]"]) (simp add: all3 del: reach.simps)
  next
    case 2
    with m l show ?thesis
      by (intro exI [of _ "[x, z, y]"]) (simp add: all3 del: reach.simps)
  next
    case 3
    with m l show ?thesis
      by (intro exI [of _ "[y, x, z]"]) (simp add: all3 del: reach.simps)
  next
    case 4
    with m l show ?thesis
      by (intro exI [of _ "[y, z, x]"]) (simp add: all3 del: reach.simps)
  next
    case 5
    with m l show ?thesis
      by (intro exI [of _ "[z, x, y]"]) (simp add: all3 del: reach.simps)
  next
    case 6
    with m l show ?thesis
      by (intro exI [of _ "[z, y, x]"]) (simp add: all3 del: reach.simps)
  qed
qed

lemma three_single_forall:
  assumes lat: "\<And>x y z. x \<in> set g0 \<Longrightarrow> y \<in> set g1 \<Longrightarrow> z \<in> set g2 \<Longrightarrow>
           7 \<in> set (reach a [x, y, z] 0) \<and> 7 \<in> set (reach a [x, z, y] 0) \<and>
           7 \<in> set (reach a [y, x, z] 0) \<and> 7 \<in> set (reach a [y, z, x] 0) \<and>
           7 \<in> set (reach a [z, x, y] 0) \<and> 7 \<in> set (reach a [z, y, x] 0)"
    and p: "distinct p" "set p = {0, 1, 2}"
    and toks: "length toks = 3" "\<forall>j < 3. toks ! j \<in> set ([g0, g1, g2] ! (p ! j))"
  shows "7 \<in> set (reach a toks 0)"
proof -
  from toks(1) obtain t0 t1 t2 where t: "toks = [t0, t1, t2]"
    by (cases toks rule: list_upto_three) simp_all
  from toks(2) have
    m0: "toks ! 0 \<in> set ([g0, g1, g2] ! (p ! 0))" and
    m1: "toks ! 1 \<in> set ([g0, g1, g2] ! (p ! 1))" and
    m2: "toks ! 2 \<in> set ([g0, g1, g2] ! (p ! 2))"
    by simp_all
  from perms_of_three [OF p] consider
    "p = [0, 1, 2]" | "p = [0, 2, 1]" | "p = [1, 0, 2]" | "p = [1, 2, 0]" |
    "p = [2, 0, 1]" | "p = [2, 1, 0]" by blast
  then show ?thesis
  proof cases
    case 1
    with m0 m1 m2 lat [of t0 t1 t2] show ?thesis by (simp add: t del: reach.simps)
  next
    case 2
    with m0 m1 m2 lat [of t0 t2 t1] show ?thesis by (simp add: t del: reach.simps)
  next
    case 3
    with m0 m1 m2 lat [of t1 t0 t2] show ?thesis by (simp add: t del: reach.simps)
  next
    case 4
    with m0 m1 m2 lat [of t2 t0 t1] show ?thesis by (simp add: t del: reach.simps)
  next
    case 5
    with m0 m1 m2 lat [of t1 t2 t0] show ?thesis by (simp add: t del: reach.simps)
  next
    case 6
    with m0 m1 m2 lat [of t2 t1 t0] show ?thesis by (simp add: t del: reach.simps)
  qed
qed

subsection \<open>The unconstrained automaton\<close>

text \<open>
  C10. \<open>FreeConstraint.get_state_matrix\<close> always returns the one-state automaton: a
  tensor of exactly one state, whose state 0 loops to itself on every token of the
  vocabulary, with state count 1 and candidate count 0. Whatever \<open>self.M\<close> held before
  is replaced.
\<close>

theorem FreeConstraint_one_state:
  "\<exists>a. FreeConstraint_get_state_matrix m0 = Inr (Some a, 1, 0) \<and>
       n_state a = 1 \<and> n_vocab a = vocab_size m0 \<and>
       (\<forall>w < vocab_size m0. cell a 0 0 w = 1)"
  by (simp add: FreeConstraint_get_state_matrix_def init_matrix_def init_row_def
      set_diag_row_def np_zeros_def)

theorem FreeConstraint_one_state_witness:
  "\<exists>a. FreeConstraint_get_state_matrix (new_CBSMatrix 3) = Inr (Some a, 1, 0) \<and>
       n_state a = 1 \<and> n_vocab a = 3 \<and>
       cell a 0 0 0 = 1 \<and> cell a 0 0 1 = 1 \<and> cell a 0 0 2 = 1"
  using FreeConstraint_one_state [of "new_CBSMatrix 3"]
  by (auto simp: new_CBSMatrix_def)

subsection \<open>Auxiliary states\<close>

text \<open>
  C9. Within one call of \<open>get_state_matrix\<close> the auxiliary state indices start at 8,
  right after the terminal state 7, and no two chains share one: the auxiliary states
  that calls leave are exactly 8, 9, ..., n - 1, each once, and so are the auxiliary
  states that calls enter, where \<open>n\<close> is the final value of \<open>start_additional_index\<close>,
  the state count a successful build returns. So every auxiliary state lies on exactly
  one chain.
\<close>

theorem aux_states_never_shared:
  assumes "connect_calls self candidates = Inr (calls, n)"
  shows "8 \<le> n \<and> aux_sources calls = [8..<n] \<and> aux_targets calls = [8..<n] \<and>
         distinct (aux_sources calls) \<and> distinct (aux_targets calls) \<and>
         (\<forall>mo n' k. build_state_matrix self candidates = Inr (mo, n', k) \<longrightarrow> n' = n)"
proof -
  from assms wire_candidates_log_fresh [of self 0 candidates "[]" 8 calls n]
  have "fresh_calls calls 8 n" by (simp add: connect_calls_def)
  moreover have "n' = n" if "build_state_matrix self candidates = Inr (mo, n', k)" for mo n' k
    using build_state_matrix_Inr [OF that] assms by auto
  ultimately show ?thesis by (simp add: fresh_calls_def)
qed

lemma example_calls:
  "connect_calls example_self [''wood burning stove'', ''dog''] =
     Inr ([(0, 8, [5]), (8, 9, [6]), (9, 1, [7]), (4, 10, [5]), (10, 11, [6]), (11, 7, [7]),
           (2, 12, [5]), (12, 13, [6]), (13, 6, [7]), (3, 14, [5]), (14, 15, [6]), (15, 5, [7]),
           (0, 2, [2]), (5, 7, [2]), (1, 6, [2]), (3, 4, [2])], 16)"
  by (simp add: connect_calls_def build_defs Let_def)

theorem aux_states_never_shared_witness:
  "connect_calls example_self [''wood burning stove'', ''dog''] =
     Inr ([(0, 8, [5]), (8, 9, [6]), (9, 1, [7]), (4, 10, [5]), (10, 11, [6]), (11, 7, [7]),
           (2, 12, [5]), (12, 13, [6]), (13, 6, [7]), (3, 14, [5]), (14, 15, [6]), (15, 5, [7]),
           (0, 2, [2]), (5, 7, [2]), (1, 6, [2]), (3, 4, [2])], 16) \<and>
   aux_sources [(0, 8, [5]), (8, 9, [6]), (9, 1, [7]), (4, 10, [5]), (10, 11, [6]), (11, 7, [7]),
           (2, 12, [5]), (12, 13, [6]), (13, 6, [7]), (3, 14, [5]), (14, 15, [6]), (15, 5, [7]),
           (0, 2, [2]), (5, 7, [2]), (1, 6, [2]), (3, 4, [2])] = [8, 9, 10, 11, 12, 13, 14, 15] \<and>
   aux_targets [(0, 8, [5]), (8, 9, [6]), (9, 1, [7]), (4, 10, [5]), (10, 11, [6]), (11, 7, [7]),
           (2, 12, [5]), (12, 13, [6]), (13, 6, [7]), (3, 14, [5]), (14, 15, [6]), (15, 5, [7]),
           (0, 2, [2]), (5, 7, [2]), (1, 6, [2]), (3, 4, [2])] = [8, 9, 10, 11, 12, 13, 14, 15]"
  using aux_states_never_shared [OF example_calls] example_calls
  by (simp add: upt_rec)

subsection \<open>The wiring of one candidate\<close>

text \<open>
  C2, as the code has it. For a phrase of one to three words the loop body makes four
  chains of calls. For candidate 0: state 0 to 1, state 4 to 7, state 2 (the tier-1
  state of candidate 1) to state 6, and state 3 (the tier-1 state of candidate 2) to
  state 5. For candidate 1: 0 to 2, 5 to 7, state 1 to state 6, state 3 to state 4. For
  candidate 2: 0 to 3, 6 to 7, state 1 to state 5, state 2 to state 4.
\<close>

theorem level_wiring:
  assumes "1 \<le> length (str_split target)" "length (str_split target) \<le> 3"
    and "gs = phrase_groups self target" and "d = length gs - 1"
  shows
    "wire_candidate log_connect self 0 target (cs, s) =
       Inr (cs @ chain 0 1 gs s @ chain 4 7 gs (s + d) @
            chain 2 6 gs (s + 2 * d) @ chain 3 5 gs (s + 3 * d), s + 4 * d) \<and>
     wire_candidate log_connect self 1 target (cs, s) =
       Inr (cs @ chain 0 2 gs s @ chain 5 7 gs (s + d) @
            chain 1 6 gs (s + 2 * d) @ chain 3 4 gs (s + 3 * d), s + 4 * d) \<and>
     wire_candidate log_connect self 2 target (cs, s) =
       Inr (cs @ chain 0 3 gs s @ chain 6 7 gs (s + d) @
            chain 1 5 gs (s + 2 * d) @ chain 2 4 gs (s + 3 * d), s + 4 * d)"
  using wire_candidate_log_0 [OF assms(1,2)] wire_candidate_log_1 [OF assms(1,2)]
    wire_candidate_log_2 [OF assms(1,2)] assms(3,4)
  by (simp add: Let_def)

theorem level_wiring_witness:
  "wire_candidate log_connect example_self 0 ''dog'' ([], 8) =
     Inr ([(0, 1, [2]), (4, 7, [2]), (2, 6, [2]), (3, 5, [2])], 8) \<and>
   wire_candidate log_connect example_self 1 ''dog'' ([], 8) =
     Inr ([(0, 2, [2]), (5, 7, [2]), (1, 6, [2]), (3, 4, [2])], 8) \<and>
   wire_candidate log_connect example_self 2 ''dog'' ([], 8) =
     Inr ([(0, 3, [2]), (6, 7, [2]), (1, 5, [2]), (2, 4, [2])], 8)"
  using level_wiring [of "''dog''" "[[2]]" example_self 0 "[]" 8]
  by (simp add: phrase_groups_def example_split example_word_set)

text \<open>
  The table of the specification has the two entries of candidate 0 exchanged: the build
  of the single phrase dog sets no entry from state 3 to state 6 and none from state 2 to
  state 5 on the token of dog; it sets the entries from 3 to 5 and from 2 to 6.
\<close>

theorem level_wiring_counterexample:
  "entry (build_state_matrix example_self [''dog'']) 3 6 2 = Some 0 \<and>
   entry (build_state_matrix example_self [''dog'']) 3 5 2 = Some 1 \<and>
   entry (build_state_matrix example_self [''dog'']) 2 5 2 = Some 0 \<and>
   entry (build_state_matrix example_self [''dog'']) 2 6 2 = Some 1"
  by (simp add: entry_def build_defs upt_rec)

subsection \<open>Self-loops and forced progression\<close>

text \<open>
  C6. In the tensor that \<open>get_state_matrix\<close> returns, every one of the 26 initialised
  states \<open>s\<close> keeps its self-loop on every token \<open>w\<close> of the vocabulary that no call of
  \<open>add_connect\<close> routed out of \<open>s\<close>: the diagonal entry is 1, and no other entry of the
  row is set for that token.
\<close>

theorem self_loops_kept:
  assumes "build_state_matrix self candidates = Inr (Some a, n, k)"
  shows "\<exists>calls. connect_calls self candidates = Inr (calls, n) \<and>
           (\<forall>s < 26. \<forall>w < vocab_size (M self). \<not> routed_out calls s w \<longrightarrow>
              cell a s s w = 1 \<and> (\<forall>s'. s' \<noteq> s \<longrightarrow> cell a s s' w = 0))"
proof -
  from build_state_matrix_Inr [OF assms] obtain calls where
    calls: "connect_calls self candidates = Inr (calls, n)" and b: "built self calls a"
    by auto
  have "cell a s s w = 1 \<and> (\<forall>s'. s' \<noteq> s \<longrightarrow> cell a s s' w = 0)"
    if "s < 26" "w < vocab_size (M self)" "\<not> routed_out calls s w" for s w
  proof -
    have "\<not> routed calls s s' w" for s'
      using that(3) routed_imp_routed_out by blast
    with b that show ?thesis by (simp add: built_def)
  qed
  with calls show ?thesis by blast
qed

theorem self_loops_kept_witness:
  "\<exists>a. build_state_matrix example_self [''dog'', ''frisbee''] = Inr (Some a, 8, 2) \<and>
       cell a 0 0 4 = 1 \<and> cell a 0 1 4 = 0 \<and> cell a 1 1 2 = 1 \<and> cell a 7 7 3 = 1"
proof -
  from example_build_dog_frisbee obtain a where
    a: "build_state_matrix example_self [''dog'', ''frisbee''] = Inr (Some a, 8, 2)" ..
  from self_loops_kept [OF a] example_calls_dog_frisbee
  have loops: "\<forall>s < 26. \<forall>w < vocab_size (M example_self).
      \<not> routed_out [(0, 1, [2]), (4, 7, [2]), (2, 6, [2]), (3, 5, [2]),
           (0, 2, [3]), (5, 7, [3]), (1, 6, [3]), (3, 4, [3])] s w \<longrightarrow>
      cell a s s w = 1 \<and> (\<forall>s'. s' \<noteq> s \<longrightarrow> cell a s s' w = 0)"
    by simp
  have "cell a 0 0 4 = 1 \<and> cell a 0 1 4 = 0"
    using loops [rule_format, of 0 4] by (simp add: example_M routed_out_def)
  moreover have "cell a 1 1 2 = 1"
    using loops [rule_format, of 1 2] by (simp add: example_M routed_out_def)
  moreover have "cell a 7 7 3 = 1"
    using loops [rule_format, of 7 3] by (simp add: example_M routed_out_def)
  ultimately show ?thesis using a by blast
qed

text \<open>
  C5, as the code has it. A call of \<open>add_connect\<close> from a state to a different state
  that returns leaves, for every token of the group, the entry to the target set and the
  self-loop entry cleared. Every call a successful build makes goes between two different
  states, and for each of them both entries are still so in the returned tensor.
\<close>

theorem forced_progression:
  "(add_connect f t g m = Inr m' \<and> f \<noteq> t \<longrightarrow>
      (\<exists>a'. matrix m' = Some a' \<and> (\<forall>w \<in> set g. cell a' f t w = 1 \<and> cell a' f f w = 0))) \<and>
   (build_state_matrix self candidates = Inr (Some a, n, k) \<longrightarrow>
      (\<exists>calls. connect_calls self candidates = Inr (calls, n) \<and>
         (\<forall>c \<in> set calls. fst c \<noteq> fst (snd c) \<and>
            (\<forall>w \<in> set (snd (snd c)).
               cell a (fst c) (fst (snd c)) w = 1 \<and> cell a (fst c) (fst c) w = 0))))"
proof (intro conjI impI)
  assume h: "add_connect f t g m = Inr m' \<and> f \<noteq> t"
  then obtain a0 a' where
    "matrix m = Some a0" "add_connect_loop f t g a0 = Inr a'" "matrix m' = Some a'"
    by (auto simp: add_connect_eq_Inr)
  with h show "\<exists>a'. matrix m' = Some a' \<and> (\<forall>w \<in> set g. cell a' f t w = 1 \<and> cell a' f f w = 0)"
    by (simp add: add_connect_loop_cell)
next
  assume "build_state_matrix self candidates = Inr (Some a, n, k)"
  from build_state_matrix_Inr [OF this] obtain calls where
    calls: "connect_calls self candidates = Inr (calls, n)" and b: "built self calls a"
    and fresh: "fresh_calls calls 8 n"
    by auto
  have "fst c \<noteq> fst (snd c) \<and>
        (\<forall>w \<in> set (snd (snd c)). cell a (fst c) (fst (snd c)) w = 1 \<and> cell a (fst c) (fst c) w = 0)"
    if c: "c \<in> set calls" for c
  proof -
    obtain f' t' g' where c_eq: "c = (f', t', g')" by (cases c)
    have ne: "f' \<noteq> t'" using fresh c c_eq by (auto simp: fresh_calls_def)
    have "cell a f' t' w = 1 \<and> cell a f' f' w = 0" if "w \<in> set g'" for w
    proof -
      have r: "routed calls f' t' w" using c c_eq that by (simp add: routed_member)
      then have "routed_out calls f' w" by (rule routed_imp_routed_out)
      with r ne b show ?thesis by (simp add: built_def)
    qed
    with ne c_eq show ?thesis by simp
  qed
  with calls
  show "\<exists>calls. connect_calls self candidates = Inr (calls, n) \<and>
         (\<forall>c \<in> set calls. fst c \<noteq> fst (snd c) \<and>
            (\<forall>w \<in> set (snd (snd c)).
               cell a (fst c) (fst (snd c)) w = 1 \<and> cell a (fst c) (fst c) w = 0))"
    by blast
qed

theorem forced_progression_witness:
  "(\<exists>m' a'. add_connect 0 1 [2] (init_matrix (new_CBSMatrix 14) 26) = Inr m' \<and>
       matrix m' = Some a' \<and> cell a' 0 1 2 = 1 \<and> cell a' 0 0 2 = 0) \<and>
   (\<exists>a. build_state_matrix example_self [''dog'', ''frisbee''] = Inr (Some a, 8, 2) \<and>
       cell a 0 1 2 = 1 \<and> cell a 0 0 2 = 0 \<and> cell a 1 6 3 = 1 \<and> cell a 1 1 3 = 0)"
proof -
  from example_connect obtain m' where
    m': "add_connect 0 1 [2] (init_matrix (new_CBSMatrix 14) 26) = Inr m'" ..
  from example_build_dog_frisbee obtain a where
    a: "build_state_matrix example_self [''dog'', ''frisbee''] = Inr (Some a, 8, 2)" ..
  note fp = forced_progression [of 0 1 "[2]" "init_matrix (new_CBSMatrix 14) 26" m'
      example_self "[''dog'', ''frisbee'']" a 8 2]
  from fp m' have one: "\<exists>a'. matrix m' = Some a' \<and> cell a' 0 1 2 = 1 \<and> cell a' 0 0 2 = 0"
    by simp
  from fp a example_calls_dog_frisbee
  have two: "cell a 0 1 2 = 1 \<and> cell a 0 0 2 = 0 \<and> cell a 1 6 3 = 1 \<and> cell a 1 1 3 = 0"
    by simp
  from one two m' a show ?thesis by blast
qed

text \<open>
  When source and target are the same state the last write wins and the entry is
  cleared, so the entry to the target is not set after the call.
\<close>

theorem forced_progression_counterexample:
  "entry_after (add_connect 7 7 [2] (init_matrix (new_CBSMatrix 14) 26)) 7 7 2 = Some 0"
  by (simp add: entry_after_def add_connect_def init_matrix_def np_zeros_def new_CBSMatrix_def
      set_item_def)

subsection \<open>The empty candidate list\<close>

text \<open>
  C3, as the code has it. For the empty candidate list the build returns a tensor of 26
  states in which every state loops to itself on every token and nothing else is set,
  the state count 8 and the candidate count 0.
\<close>

theorem empty_candidate_list:
  "\<exists>a. build_state_matrix self [] = Inr (Some a, 8, 0) \<and>
       n_state a = 26 \<and> n_vocab a = vocab_size (M self) \<and>
       (\<forall>x y z. cell a x y z = (if x = y \<and> x < 26 \<and> z < vocab_size (M self) then 1 else 0))"
proof -
  from init_rows_26 [of "M self"] obtain a0 where
    "init_rows [0..<26] (init_matrix (M self) 26) = Inr ((M self)\<lparr>matrix := Some a0\<rparr>)"
    "n_state a0 = 26" "n_vocab a0 = vocab_size (M self)"
    "\<forall>x y z. cell a0 x y z = (if x = y \<and> x < 26 \<and> z < vocab_size (M self) then 1 else 0)"
    by blast
  then show ?thesis
    by (simp add: build_state_matrix_def Let_def)
qed

theorem empty_candidate_list_witness:
  "\<exists>a. build_state_matrix example_self [] = Inr (Some a, 8, 0) \<and>
       n_state a = 26 \<and> n_vocab a = 14 \<and>
       cell a 0 0 5 = 1 \<and> cell a 25 25 13 = 1 \<and> cell a 0 1 5 = 0"
  using empty_candidate_list [of example_self] by (auto simp: example_M)

text \<open>
  The returned state count is 8, not 1, and the rows of the states after state 0 are
  initialised as well.
\<close>

theorem empty_candidate_list_counterexample:
  "counts (build_state_matrix example_self []) = Some (8, 0) \<and>
   entry (build_state_matrix example_self []) 1 1 2 = Some 1 \<and>
   entry (build_state_matrix example_self []) 25 25 2 = Some 1"
  by (simp add: counts_def entry_def build_defs upt_rec)

subsection \<open>A phrase of three words\<close>

text \<open>
  C8, as the code has it. For the candidate list of the single phrase wood burning stove a
  successful build makes four chains of three calls, each through two auxiliary states
  of its own: from state 0 through 8 and 9 to state 1, from state 4 through 10 and 11 to
  state 7, from state 2 through 12 and 13 to state 6, and from state 3 through 14 and 15
  to state 5. It returns candidate count 1 and state count 16, the 8 fixed states and
  8 auxiliary ones.
\<close>

theorem three_word_phrase:
  assumes "build_state_matrix self [''wood burning stove''] = Inr (Some a, n, k)"
  shows "n = 16 \<and> k = 1 \<and>
    connect_calls self [''wood burning stove''] =
     Inr ([(0, 8, get_word_set self ''wood''), (8, 9, get_word_set self ''burning''),
           (9, 1, get_word_set self ''stove''),
           (4, 10, get_word_set self ''wood''), (10, 11, get_word_set self ''burning''),
           (11, 7, get_word_set self ''stove''),
           (2, 12, get_word_set self ''wood''), (12, 13, get_word_set self ''burning''),
           (13, 6, get_word_set self ''stove''),
           (3, 14, get_word_set self ''wood''), (14, 15, get_word_set self ''burning''),
           (15, 5, get_word_set self ''stove'')], 16) \<and>
    (\<forall>w \<in> set (get_word_set self ''wood'').
       cell a 0 8 w = 1 \<and> cell a 4 10 w = 1 \<and> cell a 2 12 w = 1 \<and> cell a 3 14 w = 1)"
proof -
  from build_state_matrix_Inr [OF assms] obtain calls where
    calls: "connect_calls self [''wood burning stove''] = Inr (calls, n)"
    and k: "k = 1" and b: "built self calls a"
    by auto
  from calls stove_calls [of self] have n: "n = 16" and
    c: "calls = [(0, 8, get_word_set self ''wood''), (8, 9, get_word_set self ''burning''),
           (9, 1, get_word_set self ''stove''),
           (4, 10, get_word_set self ''wood''), (10, 11, get_word_set self ''burning''),
           (11, 7, get_word_set self ''stove''),
           (2, 12, get_word_set self ''wood''), (12, 13, get_word_set self ''burning''),
           (13, 6, get_word_set self ''stove''),
           (3, 14, get_word_set self ''wood''), (14, 15, get_word_set self ''burning''),
           (15, 5, get_word_set self ''stove'')]"
    by simp_all
  have "cell a 0 8 w = 1 \<and> cell a 4 10 w = 1 \<and> cell a 2 12 w = 1 \<and> cell a 3 14 w = 1"
    if "w \<in> set (get_word_set self ''wood'')" for w
    using b that unfolding built_def c by (simp add: routed_def)
  with n k stove_calls [of self] show ?thesis by blast
qed

theorem three_word_phrase_witness:
  "\<exists>a. build_state_matrix example_self [''wood burning stove''] = Inr (Some a, 16, 1) \<and>
       cell a 0 8 5 = 1 \<and> cell a 4 10 5 = 1 \<and> cell a 2 12 5 = 1 \<and> cell a 3 14 5 = 1"
proof -
  from example_build_stove obtain a where
    a: "build_state_matrix example_self [''wood burning stove''] = Inr (Some a, 16, 1)" ..
  from three_word_phrase [OF a]
  have "cell a 0 8 5 = 1 \<and> cell a 4 10 5 = 1 \<and> cell a 2 12 5 = 1 \<and> cell a 3 14 5 = 1"
    by (simp add: example_word_set)
  with a show ?thesis by blast
qed

text \<open>
  The returned state count is 16, not 12: the two chains that leave the tier-1 states 2
  and 3 are wired as well, whatever the number of candidates.
\<close>

theorem three_word_phrase_counterexample:
  "counts (build_state_matrix example_self [''wood burning stove'']) = Some (16, 1) \<and>
   entry (build_state_matrix example_self [''wood burning stove'']) 2 12 5 = Some 1 \<and>
   entry (build_state_matrix example_self [''wood burning stove'']) 3 14 5 = Some 1"
  by (simp add: counts_def entry_def build_defs upt_rec)

subsection \<open>The 26 allocated states\<close>

text \<open>
  C4. The claim is that no build of at most three phrases of at most three words writes
  outside the 26 allocated states. Three phrases of three words need 8 auxiliary states
  each: the wiring counts up to 32, and the build of wood burning stove, chest of
  drawers, salt and pepper raises IndexError at the first write to state 26.
\<close>

theorem allocation_overflow:
  "failure (build_state_matrix example_self
      [''wood burning stove'', ''chest of drawers'', ''salt and pepper'']) = Some IndexError \<and>
   map_sum id snd (connect_calls example_self
      [''wood burning stove'', ''chest of drawers'', ''salt and pepper'']) = Inr 32"
proof
  show "failure (build_state_matrix example_self
      [''wood burning stove'', ''chest of drawers'', ''salt and pepper'']) = Some IndexError"
    by (simp add: failure_def build_defs upt_rec)
  show "map_sum id snd (connect_calls example_self
      [''wood burning stove'', ''chest of drawers'', ''salt and pepper'']) = Inr 32"
    by (rule example_overflow_calls)
qed

subsection \<open>Violated preconditions\<close>




subsection \<open>Single-word candidates\<close>

text \<open>
  C1, as the code has it. For three single-word candidates a successful build uses the 8
  fixed states only and reports candidate count 3. For every order of the three
  candidates, every sequence of one token from each candidate's word group, in that
  order, can end in state 7 from state 0; when the three word groups are not empty,
  such a sequence exists for every order; when one of them is empty, no token sequence
  ends in state 7; and no sequence of fewer than three tokens ever does.
  With fewer than three single-word candidates the same lattice is wired and no token
  sequence ends in state 7: one candidate leads to state 1, two candidates lead to state
  6 in either order. So for the list dog, frisbee the build uses the 8 fixed states,
  reports candidate count 2, and both orders of the two tokens end in state 6.
\<close>

theorem lattice_of_single_words:
  "(build_state_matrix self [c0, c1, c2] = Inr (Some a, n, k) \<and>
    length (str_split c0) = 1 \<and> length (str_split c1) = 1 \<and> length (str_split c2) = 1 \<longrightarrow>
      n = 8 \<and> k = 3 \<and>
      (\<forall>p toks. distinct p \<and> set p = {0, 1, 2} \<and> length toks = 3 \<and>
          (\<forall>j < 3. toks ! j \<in> set (map (get_word_set self) [c0, c1, c2] ! (p ! j))) \<longrightarrow>
          7 \<in> set (reach a toks 0)) \<and>
      (get_word_set self c0 \<noteq> [] \<and> get_word_set self c1 \<noteq> [] \<and> get_word_set self c2 \<noteq> [] \<longrightarrow>
         (\<forall>p. distinct p \<and> set p = {0, 1, 2} \<longrightarrow>
            (\<exists>toks. length toks = 3 \<and>
               (\<forall>j < 3. toks ! j \<in> set (map (get_word_set self) [c0, c1, c2] ! (p ! j))) \<and>
               7 \<in> set (reach a toks 0)))) \<and>
      (get_word_set self c0 = [] \<or> get_word_set self c1 = [] \<or> get_word_set self c2 = [] \<longrightarrow>
         (\<forall>toks. 7 \<notin> set (reach a toks 0))) \<and>
      (\<forall>toks. length toks < 3 \<longrightarrow> 7 \<notin> set (reach a toks 0))) \<and>
   (build_state_matrix self [c0, c1] = Inr (Some a2, n2, k2) \<and>
    length (str_split c0) = 1 \<and> length (str_split c1) = 1 \<longrightarrow>
      n2 = 8 \<and> k2 = 2 \<and>
      (\<forall>x \<in> set (get_word_set self c0). \<forall>y \<in> set (get_word_set self c1).
          6 \<in> set (reach a2 [x, y] 0) \<and> 6 \<in> set (reach a2 [y, x] 0)) \<and>
      (\<forall>toks. 7 \<notin> set (reach a2 toks 0))) \<and>
   (build_state_matrix self [c0] = Inr (Some a1, n1, k1) \<and> length (str_split c0) = 1 \<longrightarrow>
      n1 = 8 \<and> k1 = 1 \<and>
      (\<forall>x \<in> set (get_word_set self c0). 1 \<in> set (reach a1 [x] 0)) \<and>
      (\<forall>toks. 7 \<notin> set (reach a1 toks 0))) \<and>
   (build_state_matrix self [''dog'', ''frisbee''] = Inr (Some a', n', k') \<longrightarrow>
      n' = 8 \<and> k' = 2 \<and>
      (\<forall>x \<in> set (get_word_set self ''dog''). \<forall>y \<in> set (get_word_set self ''frisbee'').
          6 \<in> set (reach a' [x, y] 0) \<and> 6 \<in> set (reach a' [y, x] 0)) \<and>
      (\<forall>toks. 7 \<notin> set (reach a' toks 0)))"
proof (intro conjI impI)
  assume h: "build_state_matrix self [c0, c1, c2] = Inr (Some a, n, k) \<and>
    length (str_split c0) = 1 \<and> length (str_split c1) = 1 \<and> length (str_split c2) = 1"
  then have build: "build_state_matrix self [c0, c1, c2] = Inr (Some a, n, k)"
    and single: "length (str_split c0) = 1" "length (str_split c1) = 1"
      "length (str_split c2) = 1"
    by simp_all
  note lat = three_single_lattice [OF build single]
  from lat(1) show "n = 8" "k = 3" by simp_all
  show "\<forall>toks. length toks < 3 \<longrightarrow> 7 \<notin> set (reach a toks 0)"
    using lat(3) by fastforce
  show "\<forall>p toks. distinct p \<and> set p = {0, 1, 2} \<and> length toks = 3 \<and>
          (\<forall>j < 3. toks ! j \<in> set (map (get_word_set self) [c0, c1, c2] ! (p ! j))) \<longrightarrow>
          7 \<in> set (reach a toks 0)"
    unfolding list.map
    using three_single_forall [of "get_word_set self c0" "get_word_set self c1"
        "get_word_set self c2" a, OF lat(2)]
    by blast
  {
    assume ne: "get_word_set self c0 \<noteq> [] \<and> get_word_set self c1 \<noteq> [] \<and>
      get_word_set self c2 \<noteq> []"
    show "\<forall>p. distinct p \<and> set p = {0, 1, 2} \<longrightarrow>
            (\<exists>toks. length toks = 3 \<and>
               (\<forall>j < 3. toks ! j \<in> set (map (get_word_set self) [c0, c1, c2] ! (p ! j))) \<and>
               7 \<in> set (reach a toks 0))"
      unfolding list.map
      using three_single_exists [of "get_word_set self c0" "get_word_set self c1"
          "get_word_set self c2" a, OF lat(2)] ne
      by blast
  }
  {
    assume "get_word_set self c0 = [] \<or> get_word_set self c1 = [] \<or> get_word_set self c2 = []"
    from three_single_empty [OF build single this]
    show "\<forall>toks. 7 \<notin> set (reach a toks 0)" by blast
  }
next
  assume h: "build_state_matrix self [c0, c1] = Inr (Some a2, n2, k2) \<and>
    length (str_split c0) = 1 \<and> length (str_split c1) = 1"
  then have build: "build_state_matrix self [c0, c1] = Inr (Some a2, n2, k2)"
    and single: "length (str_split c0) = 1" "length (str_split c1) = 1"
    by simp_all
  note lat = two_single_lattice [OF build single]
  from lat(1) show "n2 = 8" "k2 = 2" by simp_all
  from lat(2) show "\<forall>x \<in> set (get_word_set self c0). \<forall>y \<in> set (get_word_set self c1).
          6 \<in> set (reach a2 [x, y] 0) \<and> 6 \<in> set (reach a2 [y, x] 0)"
    by blast
  from lat(3) show "\<forall>toks. 7 \<notin> set (reach a2 toks 0)" by blast
next
  assume h: "build_state_matrix self [c0] = Inr (Some a1, n1, k1) \<and> length (str_split c0) = 1"
  then have build: "build_state_matrix self [c0] = Inr (Some a1, n1, k1)"
    and single: "length (str_split c0) = 1"
    by simp_all
  note lat = one_single_lattice [OF build single]
  from lat(1) show "n1 = 8" "k1 = 1" by simp_all
  from lat(2) show "\<forall>x \<in> set (get_word_set self c0). 1 \<in> set (reach a1 [x] 0)" by blast
  from lat(3) show "\<forall>toks. 7 \<notin> set (reach a1 toks 0)" by blast
next
  assume build: "build_state_matrix self [''dog'', ''frisbee''] = Inr (Some a', n', k')"
  have single: "length (str_split ''dog'') = 1" "length (str_split ''frisbee'') = 1"
    by (simp_all add: example_split)
  note lat = two_single_lattice [OF build single]
  from lat(1) show "n' = 8" "k' = 2" by simp_all
  from lat(2) show "\<forall>x \<in> set (get_word_set self ''dog'').
      \<forall>y \<in> set (get_word_set self ''frisbee'').
          6 \<in> set (reach a' [x, y] 0) \<and> 6 \<in> set (reach a' [y, x] 0)"
    by blast
  from lat(3) show "\<forall>toks. 7 \<notin> set (reach a' toks 0)" by blast
qed

theorem lattice_of_single_words_witness:
  "\<exists>a a2 a1 az.
      build_state_matrix example_self [''dog'', ''frisbee'', ''cat''] = Inr (Some a, 8, 3) \<and>
      7 \<in> set (reach a [2, 3, 4] 0) \<and> 7 \<in> set (reach a [4, 2, 3] 0) \<and>
      (\<exists>toks. length toks = 3 \<and> 7 \<in> set (reach a toks 0)) \<and>
      7 \<notin> set (reach a [2, 3] 0) \<and>
      build_state_matrix example_self [''dog'', ''frisbee''] = Inr (Some a2, 8, 2) \<and>
      6 \<in> set (reach a2 [2, 3] 0) \<and> 6 \<in> set (reach a2 [3, 2] 0) \<and>
      7 \<notin> set (reach a2 [2, 3] 0) \<and>
      build_state_matrix example_self [''dog''] = Inr (Some a1, 8, 1) \<and>
      1 \<in> set (reach a1 [2] 0) \<and> 7 \<notin> set (reach a1 [2] 0) \<and>
      build_state_matrix example_self [''dog'', ''frisbee'', ''zebra''] = Inr (Some az, 8, 3) \<and>
      7 \<notin> set (reach az [2, 3, 1] 0)"
proof -
  from example_build_three obtain a where
    a: "build_state_matrix example_self [''dog'', ''frisbee'', ''cat''] = Inr (Some a, 8, 3)" ..
  from example_build_dog_frisbee obtain a2 where
    a2: "build_state_matrix example_self [''dog'', ''frisbee''] = Inr (Some a2, 8, 2)" ..
  from example_build_dog obtain a1 where
    a1: "build_state_matrix example_self [''dog''] = Inr (Some a1, 8, 1)" ..
  from example_build_zebra obtain az where
    az: "build_state_matrix example_self [''dog'', ''frisbee'', ''zebra''] = Inr (Some az, 8, 3)" ..
  note th = lattice_of_single_words [of example_self "''dog''" "''frisbee''" "''cat''" a 8 3
      a2 8 2 a1 8 1 a2 8 2]
  note thz = lattice_of_single_words [of example_self "''dog''" "''frisbee''" "''zebra''" az 8 3
      a2 8 2 a1 8 1 a2 8 2]
  have gs: "map (get_word_set example_self) [''dog'', ''frisbee'', ''cat''] = [[2], [3], [4]]"
    by (simp add: example_word_set)
  have single: "length (str_split ''dog'') = 1" "length (str_split ''frisbee'') = 1"
    "length (str_split ''cat'') = 1" "length (str_split ''zebra'') = 1"
    by (simp_all add: example_split example_zebra)
  have ne: "get_word_set example_self ''dog'' \<noteq> []" "get_word_set example_self ''frisbee'' \<noteq> []"
    "get_word_set example_self ''cat'' \<noteq> []"
    by (simp_all add: example_word_set)
  from th a single have
    perm: "\<forall>p toks. distinct p \<and> set p = {0, 1, 2} \<and> length toks = 3 \<and>
      (\<forall>j < 3. toks ! j \<in> set ([[2], [3], [4]] ! (p ! j))) \<longrightarrow> 7 \<in> set (reach a toks 0)"
    and short: "\<forall>toks. length toks < 3 \<longrightarrow> 7 \<notin> set (reach a toks 0)"
    unfolding gs by blast+
  from th a single ne have
    ex: "\<forall>p. distinct p \<and> set p = {0, 1, 2} \<longrightarrow>
      (\<exists>toks. length toks = 3 \<and>
         (\<forall>j < 3. toks ! j \<in> set ([[2], [3], [4]] ! (p ! j))) \<and> 7 \<in> set (reach a toks 0))"
    unfolding gs by blast
  have all3: "(\<forall>j < 3. P j) \<longleftrightarrow> P 0 \<and> P 1 \<and> P (2::nat)" for P
    by (auto simp: less_Suc_eq numeral_3_eq_3 numeral_2_eq_2)
  from perm [rule_format, of "[0, 1, 2]" "[2, 3, 4]"]
  have r1: "7 \<in> set (reach a [2, 3, 4] 0)" by (simp add: all3 del: reach.simps)
  from perm [rule_format, of "[2, 0, 1]" "[4, 2, 3]"]
  have r2: "7 \<in> set (reach a [4, 2, 3] 0)" by (auto simp: all3 simp del: reach.simps)
  from ex [rule_format, of "[1, 0, 2]"]
  have r2e: "\<exists>toks. length toks = 3 \<and> 7 \<in> set (reach a toks 0)" by auto
  from short [rule_format, of "[2, 3]"]
  have r3: "7 \<notin> set (reach a [2, 3] 0)" by (simp del: reach.simps)
  from th a2 single have
    pair: "\<forall>x \<in> set (get_word_set example_self ''dog'').
        \<forall>y \<in> set (get_word_set example_self ''frisbee'').
          6 \<in> set (reach a2 [x, y] 0) \<and> 6 \<in> set (reach a2 [y, x] 0)"
    and never: "\<forall>toks. 7 \<notin> set (reach a2 toks 0)"
    by blast+
  from pair have r4: "6 \<in> set (reach a2 [2, 3] 0)" "6 \<in> set (reach a2 [3, 2] 0)"
    by (simp_all add: example_word_set del: reach.simps)
  from never have r5: "7 \<notin> set (reach a2 [2, 3] 0)" by blast
  from th a1 single have
    first: "\<forall>x \<in> set (get_word_set example_self ''dog''). 1 \<in> set (reach a1 [x] 0)"
    and never1: "\<forall>toks. 7 \<notin> set (reach a1 toks 0)"
    by blast+
  from first have r6: "1 \<in> set (reach a1 [2] 0)"
    by (simp add: example_word_set del: reach.simps)
  from never1 have r7: "7 \<notin> set (reach a1 [2] 0)" by blast
  from thz az single example_zebra(2) have "\<forall>toks. 7 \<notin> set (reach az toks 0)"
    by blast
  then have r8: "7 \<notin> set (reach az [2, 3, 1] 0)" by blast
  from r1 r2 r2e r3 r4 r5 r6 r7 r8 a a2 a1 az show ?thesis by blast
qed

text \<open>
  For the list dog, frisbee neither order of the two tokens ends in state 7, and for the
  single candidate dog its token does not; with three candidates of which one, zebra, is
  not in the vocabulary, its word group is empty and state 7 is not reached either.
\<close>

theorem lattice_of_single_words_counterexample:
  "counts (build_state_matrix example_self [''dog'', ''frisbee'']) = Some (8, 2) \<and>
   \<not> ends_in (build_state_matrix example_self [''dog'', ''frisbee'']) [2, 3] 7 \<and>
   \<not> ends_in (build_state_matrix example_self [''dog'', ''frisbee'']) [3, 2] 7 \<and>
   ends_in (build_state_matrix example_self [''dog'', ''frisbee'']) [2, 3] 6 \<and>
   ends_in (build_state_matrix example_self [''dog'', ''frisbee'']) [3, 2] 6 \<and>
   counts (build_state_matrix example_self [''dog'']) = Some (8, 1) \<and>
   \<not> ends_in (build_state_matrix example_self [''dog'']) [2] 7 \<and>
   ends_in (build_state_matrix example_self [''dog'']) [2] 1 \<and>
   get_word_set example_self ''zebra'' = [] \<and>
   counts (build_state_matrix example_self [''dog'', ''frisbee'', ''zebra'']) = Some (8, 3) \<and>
   \<not> ends_in (build_state_matrix example_self [''dog'', ''frisbee'', ''zebra'']) [2, 3, 1] 7"
proof -
  from example_build_dog_frisbee obtain a2 where
    a2: "build_state_matrix example_self [''dog'', ''frisbee''] = Inr (Some a2, 8, 2)" ..
  from example_build_dog obtain a1 where
    a1: "build_state_matrix example_self [''dog''] = Inr (Some a1, 8, 1)" ..
  from example_build_zebra obtain az where
    az: "build_state_matrix example_self [''dog'', ''frisbee'', ''zebra''] = Inr (Some az, 8, 3)" ..
  have single: "length (str_split ''dog'') = 1" "length (str_split ''frisbee'') = 1"
    "length (str_split ''zebra'') = 1"
    by (simp_all add: example_split example_zebra)
  have tok: "2 \<in> set (get_word_set example_self ''dog'')"
    "3 \<in> set (get_word_set example_self ''frisbee'')"
    by (simp_all add: example_word_set)
  note lat2 = two_single_lattice [OF a2 single(1,2)]
  note lat1 = one_single_lattice [OF a1 single(1)]
  from lat2(2) [OF tok] have "6 \<in> set (reach a2 [2, 3] 0)" "6 \<in> set (reach a2 [3, 2] 0)"
    by blast+
  with lat2(3) have two:
    "counts (build_state_matrix example_self [''dog'', ''frisbee'']) = Some (8, 2) \<and>
     \<not> ends_in (build_state_matrix example_self [''dog'', ''frisbee'']) [2, 3] 7 \<and>
     \<not> ends_in (build_state_matrix example_self [''dog'', ''frisbee'']) [3, 2] 7 \<and>
     ends_in (build_state_matrix example_self [''dog'', ''frisbee'']) [2, 3] 6 \<and>
     ends_in (build_state_matrix example_self [''dog'', ''frisbee'']) [3, 2] 6"
    by (simp add: a2 counts_def ends_in_def del: reach.simps)
  from lat1(2) [OF tok(1)] lat1(3) have one:
    "counts (build_state_matrix example_self [''dog'']) = Some (8, 1) \<and>
     \<not> ends_in (build_state_matrix example_self [''dog'']) [2] 7 \<and>
     ends_in (build_state_matrix example_self [''dog'']) [2] 1"
    by (simp add: a1 counts_def ends_in_def del: reach.simps)
  from three_single_empty [OF az single(1,2,3), of "[2, 3, 1]"] example_zebra(2)
  have zebra:
    "counts (build_state_matrix example_self [''dog'', ''frisbee'', ''zebra'']) = Some (8, 3) \<and>
     \<not> ends_in (build_state_matrix example_self [''dog'', ''frisbee'', ''zebra'']) [2, 3, 1] 7"
    by (simp add: az counts_def ends_in_def del: reach.simps)
  from two one zebra example_zebra(2) show ?thesis by blast
qed

end
